theory Spec2Isabelle
  imports Main "HOL-Library.Char_ord" "HOL-Library.List_Lexorder" "HOL-Library.Multiset"
begin

section \<open>Python strings\<close>

text \<open>
  Strings are lists of characters, a character being a code point below 256 (Latin-1);
  text with other code points is outside the model. The whitespace of \<^verbatim>\<open>str.strip\<close>,
  \<^verbatim>\<open>str.split()\<close> and \<^verbatim>\<open>int\<close> is that of \<^verbatim>\<open>str.isspace\<close>: the codes 9 to 13,
  28 to 32, 133 and 160. \<^verbatim>\<open>str.lower\<close> maps \<open>A\<close>..\<open>Z\<close> (65 to 90) and the capital
  letters 192 to 222, the multiplication sign 215 apart, to the letters 32 places on.
\<close>

definition is_space :: "char \<Rightarrow> bool" where
  "is_space c =
     (let k = of_char c :: nat
      in (9 \<le> k \<and> k \<le> 13) \<or> (28 \<le> k \<and> k \<le> 32) \<or> k = 133 \<or> k = 160)"

definition is_digit :: "char \<Rightarrow> bool" where
  "is_digit c = (let k = of_char c :: nat in 48 \<le> k \<and> k \<le> 57)"

definition lower_char :: "char \<Rightarrow> char" where
  "lower_char c =
     (let k = of_char c :: nat
      in if (65 \<le> k \<and> k \<le> 90) \<or> (192 \<le> k \<and> k \<le> 222 \<and> k \<noteq> 215) then char_of (k + 32)
         else c)"

text \<open>\<^verbatim>\<open>s.lower()\<close>\<close>

definition lower :: "string \<Rightarrow> string" where
  "lower s = map lower_char s"

text \<open>\<^verbatim>\<open>s.strip()\<close>\<close>

definition strip :: "string \<Rightarrow> string" where
  "strip s = rev (dropWhile is_space (rev (dropWhile is_space s)))"

text \<open>\<^verbatim>\<open>s.split()\<close>: the maximal runs of non-whitespace characters.\<close>

fun split_ws_aux :: "string \<Rightarrow> string \<Rightarrow> string list" where
  "split_ws_aux cur [] = (if cur = [] then [] else [rev cur])"
| "split_ws_aux cur (c # cs) =
     (if is_space c then (if cur = [] then split_ws_aux [] cs else rev cur # split_ws_aux [] cs)
      else split_ws_aux (c # cur) cs)"

definition split_ws :: "string \<Rightarrow> string list" where
  "split_ws s = split_ws_aux [] s"

text \<open>\<^verbatim>\<open>s.split(sep)\<close> for a one-character separator: never an empty list.\<close>

fun split_on :: "char \<Rightarrow> string \<Rightarrow> string list" where
  "split_on sep [] = [[]]"
| "split_on sep (c # cs) =
     (if c = sep then [] # split_on sep cs
      else (case split_on sep cs of [] \<Rightarrow> [[c]] | p # ps \<Rightarrow> (c # p) # ps))"

fun starts_with :: "string \<Rightarrow> string \<Rightarrow> bool" where
  "starts_with [] s = True"
| "starts_with (p # ps) [] = False"
| "starts_with (p # ps) (c # cs) = (p = c \<and> starts_with ps cs)"

text \<open>\<^verbatim>\<open>sub in s\<close>\<close>

fun contains :: "string \<Rightarrow> string \<Rightarrow> bool" where
  "contains sub [] = (sub = [])"
| "contains sub (c # cs) = (starts_with sub (c # cs) \<or> contains sub cs)"

section \<open>Exceptions\<close>

datatype py_error =
    KeyError string
  | ValueError
  | TypeError
  | OverflowError
  | IndexError
  | AttributeError

section \<open>\<^verbatim>\<open>int(token)\<close>\<close>

text \<open>
  \<^verbatim>\<open>int(s)\<close> in base 10: surrounding whitespace is ignored, then an optional sign, then
  decimal digits in which single underscores may stand between two digits. Anything else is
  a \<open>ValueError\<close>, and so is a numeral of more digits than
  \<^verbatim>\<open>sys.get_int_max_str_digits()\<close>, 4300 unless configured otherwise.
\<close>

definition int_max_str_digits :: nat where
  "int_max_str_digits = 4300"

fun digits_ok :: "bool \<Rightarrow> string \<Rightarrow> bool" where
  "digits_ok prev [] = prev"
| "digits_ok prev (c # cs) =
     (if is_digit c then digits_ok True cs
      else if c = CHR ''_'' \<and> prev then digits_ok False cs
      else False)"

fun dec_value :: "nat \<Rightarrow> string \<Rightarrow> nat" where
  "dec_value acc [] = acc"
| "dec_value acc (c # cs) =
     (if is_digit c then dec_value (10 * acc + (of_char c - 48)) cs else dec_value acc cs)"

definition py_int :: "string \<Rightarrow> py_error + int" where
  "py_int s =
     (let t = strip s;
          (neg, body) = (case t of
                           [] \<Rightarrow> (False, [])
                         | c # cs \<Rightarrow> if c = CHR ''-'' then (True, cs)
                                    else if c = CHR ''+'' then (False, cs)
                                    else (False, t))
      in if digits_ok False body \<and> length (filter is_digit body) \<le> int_max_str_digits
         then Inr (if neg then - int (dec_value 0 body) else int (dec_value 0 body))
         else Inl ValueError)"

section \<open>\<^verbatim>\<open>datetime\<close> and \<^verbatim>\<open>timedelta\<close>\<close>

text \<open>
  A naive \<^verbatim>\<open>datetime\<close> is the number of microseconds since 0001-01-01T00:00:00, the
  least value of the type; the greatest is 9999-12-31T23:59:59.999999, and
  \<^verbatim>\<open>date.max.toordinal()\<close> is 3652059. A \<^verbatim>\<open>timedelta\<close> built from whole days is
  a number of days of magnitude at most 999999999. Both constructors raise
  \<open>OverflowError\<close> outside their range.
\<close>

type_synonym datetime = int

definition us_per_day :: int where
  "us_per_day = 86400000000"

definition datetime_max :: int where
  "datetime_max = 3652059 * us_per_day - 1"

definition valid_datetime :: "datetime \<Rightarrow> bool" where
  "valid_datetime t = (0 \<le> t \<and> t \<le> datetime_max)"

text \<open>\<^verbatim>\<open>timedelta(days=d)\<close>, as a number of days.\<close>

definition timedelta_days :: "int \<Rightarrow> py_error + int" where
  "timedelta_days d = (if - 999999999 \<le> d \<and> d \<le> 999999999 then Inr d else Inl OverflowError)"

text \<open>\<^verbatim>\<open>timedelta(weeks=w)\<close>, as a number of days.\<close>

definition timedelta_weeks :: "int \<Rightarrow> py_error + int" where
  "timedelta_weeks w = timedelta_days (7 * w)"

text \<open>\<^verbatim>\<open>reference_date - delta\<close>\<close>

definition datetime_sub :: "datetime \<Rightarrow> int \<Rightarrow> py_error + datetime" where
  "datetime_sub t d =
     (let r = t - d * us_per_day in if valid_datetime r then Inr r else Inl OverflowError)"

text \<open>\<^verbatim>\<open>datetime(2025, 9, 5)\<close>: day 739499 of the proleptic Gregorian calendar.\<close>

definition default_reference :: datetime where
  "default_reference = (739499 - 1) * us_per_day"

section \<open>Cells of a table\<close>

text \<open>
  A cell holds text, a timestamp, or the missing value (\<^verbatim>\<open>NaN\<close>, \<^verbatim>\<open>None\<close> and
  \<^verbatim>\<open>pd.NaT\<close>, which \<^verbatim>\<open>dropna\<close> and \<^verbatim>\<open>fillna\<close> treat alike).
\<close>

datatype cell = Str string | Ts datetime | NaN

section \<open>\<^verbatim>\<open>parse_relative_date\<close>\<close>

text \<open>
  \<^verbatim>\<open>pd.to_datetime\<close> is the library's calendar-date parser: it is a parameter \<open>to_dt\<close>
  of the model, returning a timestamp, \<^verbatim>\<open>NaT\<close> (\<open>None\<close>) or the exception it raises.
\<close>

type_synonym to_datetime = "string \<Rightarrow> py_error + datetime option"

definition first_token :: "string \<Rightarrow> py_error + string" where
  "first_token s = (case split_ws s of [] \<Rightarrow> Inl IndexError | t # _ \<Rightarrow> Inr t)"

text \<open>The body of the \<^verbatim>\<open>try\<close> block of \<^verbatim>\<open>testdash.py\<close>.\<close>

definition ago_shift :: "string \<Rightarrow> (int \<Rightarrow> py_error + int) \<Rightarrow> datetime \<Rightarrow> py_error + cell" where
  "ago_shift tok_src mk_delta reference_date =
     (case first_token tok_src of
        Inl e \<Rightarrow> Inl e
      | Inr tok \<Rightarrow>
          (case py_int tok of
             Inl e \<Rightarrow> Inl e
           | Inr n \<Rightarrow>
               (case mk_delta n of
                  Inl e \<Rightarrow> Inl e
                | Inr d \<Rightarrow>
                    (case datetime_sub reference_date d of
                       Inl e \<Rightarrow> Inl e
                     | Inr t \<Rightarrow> Inr (Ts t)))))"

definition cell_of_ts :: "datetime option \<Rightarrow> cell" where
  "cell_of_ts r = (case r of None \<Rightarrow> NaN | Some t \<Rightarrow> Ts t)"

definition call_to_datetime :: "to_datetime \<Rightarrow> string \<Rightarrow> py_error + cell" where
  "call_to_datetime to_dt date_str =
     (case to_dt date_str of Inl e \<Rightarrow> Inl e | Inr r \<Rightarrow> Inr (cell_of_ts r))"

definition try_body1 :: "to_datetime \<Rightarrow> string \<Rightarrow> datetime \<Rightarrow> py_error + cell" where
  "try_body1 to_dt date_str reference_date =
     (if contains ''ago'' (lower date_str) then
        (if contains ''month'' (lower date_str) then
           ago_shift date_str (\<lambda>months. timedelta_days (months * 30)) reference_date
         else if contains ''week'' (lower date_str) then
           ago_shift date_str timedelta_weeks reference_date
         else if contains ''day'' (lower date_str) then
           ago_shift date_str timedelta_days reference_date
         else call_to_datetime to_dt date_str)
      else call_to_datetime to_dt date_str)"

text \<open>
  \<^verbatim>\<open>testdash.py\<close>: \<^verbatim>\<open>except (ValueError, TypeError): return pd.NaT\<close>; any other
  exception leaves the function.
\<close>

definition parse_relative_date1 :: "to_datetime \<Rightarrow> string \<Rightarrow> datetime \<Rightarrow> py_error + cell" where
  "parse_relative_date1 to_dt date_str reference_date =
     (case try_body1 to_dt date_str reference_date of
        Inl ValueError \<Rightarrow> Inr NaN
      | Inl TypeError \<Rightarrow> Inr NaN
      | Inl e \<Rightarrow> Inl e
      | Inr c \<Rightarrow> Inr c)"

text \<open>
  The body of the \<^verbatim>\<open>try\<close> block of \<^verbatim>\<open>testdash2.py\<close>: the string is lower-cased
  once, into \<open>s\<close>, and the magnitude is read from \<open>s\<close>; the calendar parser is called
  with \<^verbatim>\<open>errors="coerce"\<close> on the string as given.
\<close>

definition try_body2 :: "to_datetime \<Rightarrow> string \<Rightarrow> datetime \<Rightarrow> py_error + cell" where
  "try_body2 to_dt date_str reference_date =
     (let s = lower date_str in
      if contains ''ago'' s then
        (if contains ''month'' s then
           ago_shift s (\<lambda>months. timedelta_days (months * 30)) reference_date
         else if contains ''week'' s then
           ago_shift s timedelta_weeks reference_date
         else if contains ''day'' s then
           ago_shift s timedelta_days reference_date
         else call_to_datetime to_dt date_str)
      else call_to_datetime to_dt date_str)"

text \<open>\<^verbatim>\<open>testdash2.py\<close>: \<^verbatim>\<open>except Exception: return pd.NaT\<close>.\<close>

definition parse_relative_date2 :: "to_datetime \<Rightarrow> string \<Rightarrow> datetime \<Rightarrow> py_error + cell" where
  "parse_relative_date2 to_dt date_str reference_date =
     (case try_body2 to_dt date_str reference_date of
        Inl e \<Rightarrow> Inr NaN
      | Inr c \<Rightarrow> Inr c)"

section \<open>Tables\<close>

text \<open>
  A \<^verbatim>\<open>DataFrame\<close> is its column labels and its records, each record a dictionary
  from column label to cell (what \<^verbatim>\<open>to_dict("records")\<close> returns). A label that a
  record does not hold reads as the missing value. The scripts take the labels of a sheet
  to be distinct.
\<close>

type_synonym row = "(string \<times> cell) list"

record frame =
  columns :: "string list"
  rows :: "row list"

definition lookup :: "row \<Rightarrow> string \<Rightarrow> cell" where
  "lookup r c = (case map_of r c of None \<Rightarrow> NaN | Some v \<Rightarrow> v)"

text \<open>\<^verbatim>\<open>d[k] = v\<close> on a dictionary kept in insertion order.\<close>

definition dict_set :: "'k \<Rightarrow> 'v \<Rightarrow> ('k \<times> 'v) list \<Rightarrow> ('k \<times> 'v) list" where
  "dict_set k v d =
     (if k \<in> fst ` set d then map (\<lambda>(k', v'). if k' = k then (k', v) else (k', v')) d
      else d @ [(k, v)])"

text \<open>\<^verbatim>\<open>df[c]\<close>\<close>

definition getitem :: "frame \<Rightarrow> string \<Rightarrow> py_error + cell list" where
  "getitem df c =
     (if c \<in> set (columns df) then Inr (map (\<lambda>r. lookup r c) (rows df)) else Inl (KeyError c))"

text \<open>\<^verbatim>\<open>df[c] = series\<close>, the series having one value for each record.\<close>

definition setitem :: "frame \<Rightarrow> string \<Rightarrow> cell list \<Rightarrow> frame" where
  "setitem df c vs =
     \<lparr>columns = (if c \<in> set (columns df) then columns df else columns df @ [c]),
      rows = map2 (\<lambda>r v. dict_set c v r) (rows df) vs\<rparr>"

text \<open>\<^verbatim>\<open>df[mask]\<close>\<close>

definition mask_rows :: "frame \<Rightarrow> bool list \<Rightarrow> frame" where
  "mask_rows df keep = df\<lparr>rows := map fst (filter snd (zip (rows df) keep))\<rparr>"

text \<open>\<^verbatim>\<open>df.empty\<close>: an axis of length 0.\<close>

definition frame_empty :: "frame \<Rightarrow> bool" where
  "frame_empty df = (columns df = [] \<or> rows df = [])"

text \<open>\<^verbatim>\<open>pd.DataFrame()\<close>\<close>

definition empty_frame :: frame where
  "empty_frame = \<lparr>columns = [], rows = []\<rparr>"

text \<open>
  \<^verbatim>\<open>pd.DataFrame(data, columns=header)\<close> from lists of strings: short lists are filled
  with the missing value up to the longest, which must be as long as the header.
\<close>

definition DataFrame :: "string list list \<Rightarrow> string list \<Rightarrow> py_error + frame" where
  "DataFrame data header =
     (if data \<noteq> [] \<and> fold max (map length data) 0 \<noteq> length header then Inl ValueError
      else Inr \<lparr>columns = header,
                rows = map (\<lambda>vals. zip header (map Str vals @ replicate (length header - length vals) NaN))
                           data\<rparr>)"

text \<open>\<^verbatim>\<open>df.columns = new_labels\<close> and \<^verbatim>\<open>df.rename(columns=mapping, inplace=True)\<close>\<close>

definition relabel :: "(string \<Rightarrow> string) \<Rightarrow> frame \<Rightarrow> frame" where
  "relabel f df =
     \<lparr>columns = map f (columns df), rows = map (map (\<lambda>(k, v). (f k, v))) (rows df)\<rparr>"

definition rename_with :: "(string \<times> string) list \<Rightarrow> string \<Rightarrow> string" where
  "rename_with mapping c = (case map_of mapping c of None \<Rightarrow> c | Some c' \<Rightarrow> c')"

text \<open>\<^verbatim>\<open>df.columns.str.strip().str.lower()\<close>\<close>

definition normalize_label :: "string \<Rightarrow> string" where
  "normalize_label c = lower (strip c)"

section \<open>Loading the sheet\<close>

text \<open>How a script stops before it has a table: \<^verbatim>\<open>exit()\<close> after a message, or an exception.\<close>

datatype stop = EmptySheet | MissingColumns "string list" | Raised py_error

definition expected_columns :: "(string \<times> string) list" where
  "expected_columns =
     [(''job postings'', ''job_postings''),
      (''company'', ''company''),
      (''place'', ''place''),
      (''status'', ''status''),
      (''posted on'', ''posted_on''),
      (''url link'', ''url_link'')]"

text \<open>The two nested loops of \<^verbatim>\<open>testdash.py\<close> that fill \<^verbatim>\<open>column_mapping\<close>.\<close>

definition column_mapping :: "string list \<Rightarrow> (string \<times> string) list" where
  "column_mapping cols =
     fold (\<lambda>actual_col m.
             fold (\<lambda>(expected_col, canonical) m'.
                     if lower actual_col = lower expected_col then dict_set actual_col canonical m'
                     else m')
                  expected_columns m)
          cols []"

definition missing_cols :: "frame \<Rightarrow> string list" where
  "missing_cols df = filter (\<lambda>col. col \<notin> set (columns df)) (map snd expected_columns)"

text \<open>\<^verbatim>\<open>testdash.py\<close>, lines 34 to 73; \<open>data\<close> is \<^verbatim>\<open>sheet.get_all_values()\<close>.\<close>

definition load1 :: "string list list \<Rightarrow> stop + frame" where
  "load1 data =
     (if data = [] \<or> length data < 2 then Inl EmptySheet
      else case DataFrame (tl data) (hd data) of
             Inl e \<Rightarrow> Inl (Raised e)
           | Inr df0 \<Rightarrow>
               (let df1 = relabel normalize_label df0;
                    df2 = relabel (rename_with (column_mapping (columns df1))) df1
                in if missing_cols df2 \<noteq> [] then Inl (MissingColumns (missing_cols df2))
                   else Inr df2))"

text \<open>\<^verbatim>\<open>testdash2.py\<close>, lines 34 to 58.\<close>

definition load2 :: "string list list \<Rightarrow> stop + frame" where
  "load2 data =
     (if data = [] \<or> length data < 2 then Inl EmptySheet
      else case DataFrame (tl data) (hd data) of
             Inl e \<Rightarrow> Inl (Raised e)
           | Inr df0 \<Rightarrow>
               (let df1 = relabel normalize_label df0;
                    df2 = relabel (rename_with expected_columns) df1
                in if missing_cols df2 \<noteq> [] then Inl (MissingColumns (missing_cols df2))
                   else Inr df2))"

text \<open>
  \<^verbatim>\<open>main_dash.py\<close>, \<^verbatim>\<open>load_data\<close>; \<open>fetched\<close> is
  \<^verbatim>\<open>pd.DataFrame(sheet.get_all_records())\<close>, or the exception raised on the way to it.
  A table without column labels has no \<^verbatim>\<open>.str\<close> accessor on them, which raises inside
  the \<^verbatim>\<open>try\<close>. No check of the labels follows the renaming.
\<close>

definition rename_table :: "(string \<times> string) list" where
  "rename_table =
     [(''job postings'', ''job_postings''),
      (''company'', ''company''),
      (''place'', ''place''),
      (''status'', ''status''),
      (''posted on'', ''posted_on''),
      (''url link'', ''url_link''),
      (''job_description'', ''job_description'')]"

definition load_data :: "py_error + frame \<Rightarrow> frame" where
  "load_data fetched =
     (case fetched of
        Inl e \<Rightarrow> empty_frame
      | Inr df \<Rightarrow>
          if columns df = [] then empty_frame
          else relabel (rename_with rename_table) (relabel normalize_label df))"

section \<open>Cleaning\<close>

text \<open>Running a function that may raise over a list stops at the first exception.\<close>

fun traverse :: "('a \<Rightarrow> 'e + 'b) \<Rightarrow> 'a list \<Rightarrow> 'e + 'b list" where
  "traverse f [] = Inr []"
| "traverse f (x # xs) =
     (case f x of
        Inl e \<Rightarrow> Inl e
      | Inr y \<Rightarrow> (case traverse f xs of Inl e \<Rightarrow> Inl e | Inr ys \<Rightarrow> Inr (y # ys)))"

text \<open>
  \<^verbatim>\<open>series.str.strip()\<close>, one element: a value that is not text gives the missing value.
  This is the accessor of a column that holds text; on a column without any text, such as
  a column of missing values only, pandas raises \<open>AttributeError\<close> at \<^verbatim>\<open>.str\<close>, and such
  a column is outside the model.
\<close>

definition str_strip :: "cell \<Rightarrow> cell" where
  "str_strip c = (case c of Str s \<Rightarrow> Str (strip s) | _ \<Rightarrow> NaN)"

text \<open>\<^verbatim>\<open>series.str.split(',').str[0].str.strip()\<close>, one element.\<close>

definition city_of :: "cell \<Rightarrow> cell" where
  "city_of c =
     (case c of
        Str s \<Rightarrow> (case split_on CHR '','' s of [] \<Rightarrow> NaN | p # _ \<Rightarrow> Str (strip p))
      | _ \<Rightarrow> NaN)"

text \<open>\<^verbatim>\<open>df[target] = f(df[source])\<close> for an element-wise \<open>f\<close>.\<close>

definition assign :: "frame \<Rightarrow> string \<Rightarrow> string \<Rightarrow> (cell \<Rightarrow> cell) \<Rightarrow> py_error + frame" where
  "assign df target source f =
     (case getitem df source of
        Inl e \<Rightarrow> Inl e
      | Inr col \<Rightarrow> Inr (setitem df target (map f col)))"

text \<open>\<^verbatim>\<open>df.dropna(subset=[c])\<close>\<close>

definition dropna :: "frame \<Rightarrow> string \<Rightarrow> py_error + frame" where
  "dropna df c =
     (case getitem df c of
        Inl e \<Rightarrow> Inl e
      | Inr col \<Rightarrow> Inr (mask_rows df (map (\<lambda>v. v \<noteq> NaN) col)))"

text \<open>
  \<^verbatim>\<open>parse_relative_date\<close> as \<^verbatim>\<open>Series.apply\<close> calls it, with the reference date
  left to its default. A cell that is not text has no \<^verbatim>\<open>lower\<close>: an
  \<open>AttributeError\<close>, raised inside the \<^verbatim>\<open>try\<close> block.
\<close>

definition apply_parse1 :: "to_datetime \<Rightarrow> cell \<Rightarrow> py_error + cell" where
  "apply_parse1 to_dt c =
     (case c of
        Str s \<Rightarrow> parse_relative_date1 to_dt s default_reference
      | _ \<Rightarrow> Inl AttributeError)"

definition apply_parse2 :: "to_datetime \<Rightarrow> datetime \<Rightarrow> cell \<Rightarrow> py_error + cell" where
  "apply_parse2 to_dt now c =
     (case c of
        Str s \<Rightarrow> parse_relative_date2 to_dt s now
      | _ \<Rightarrow> Inr NaN)"

text \<open>\<^verbatim>\<open>testdash.py\<close>, lines 95 to 102.\<close>

definition clean1 :: "to_datetime \<Rightarrow> frame \<Rightarrow> py_error + frame" where
  "clean1 to_dt df =
     (case getitem df ''posted_on'' of Inl e \<Rightarrow> Inl e | Inr col \<Rightarrow>
      case traverse (apply_parse1 to_dt) col of Inl e \<Rightarrow> Inl e | Inr parsed \<Rightarrow>
      case dropna (setitem df ''posted_on'' parsed) ''posted_on'' of Inl e \<Rightarrow> Inl e | Inr df1 \<Rightarrow>
      case assign df1 ''job_postings'' ''job_postings'' str_strip of Inl e \<Rightarrow> Inl e | Inr df2 \<Rightarrow>
      case assign df2 ''company'' ''company'' str_strip of Inl e \<Rightarrow> Inl e | Inr df3 \<Rightarrow>
      case assign df3 ''place'' ''place'' str_strip of Inl e \<Rightarrow> Inl e | Inr df4 \<Rightarrow>
      assign df4 ''city'' ''place'' city_of)"

text \<open>
  \<^verbatim>\<open>df.sort_values(by=c, ascending=False)\<close> on a column of timestamps, which is what
  the column is where the script sorts. The order that pandas gives to records with equal
  timestamps is not fixed (its default sort is not stable); the model keeps them in their
  order, and the statements on the sorted table below do not depend on the order of its
  records. The timestamps of the model are naive: a column that mixes them with
  timezone-aware ones, on which pandas raises \<open>TypeError\<close>, is outside the model.
\<close>

definition sort_values_desc :: "frame \<Rightarrow> string \<Rightarrow> py_error + frame" where
  "sort_values_desc df c =
     (case getitem df c of
        Inl e \<Rightarrow> Inl e
      | Inr col \<Rightarrow>
          Inr (df\<lparr>rows := sort_key (\<lambda>r. case lookup r c of Ts t \<Rightarrow> - t | _ \<Rightarrow> 0) (rows df)\<rparr>))"

text \<open>
  \<^verbatim>\<open>testdash2.py\<close>, lines 81 to 87. Each call of the parser reads the clock:
  \<open>now i\<close> is \<^verbatim>\<open>datetime.now()\<close> at the call for record \<open>i\<close>.
\<close>

definition clean2 :: "to_datetime \<Rightarrow> (nat \<Rightarrow> datetime) \<Rightarrow> frame \<Rightarrow> py_error + frame" where
  "clean2 to_dt now df =
     (case getitem df ''posted_on'' of Inl e \<Rightarrow> Inl e | Inr col \<Rightarrow>
      case traverse (\<lambda>(i, c). apply_parse2 to_dt (now i) c) (enumerate 0 col) of
        Inl e \<Rightarrow> Inl e | Inr parsed \<Rightarrow>
      case dropna (setitem df ''posted_on'' parsed) ''posted_on'' of Inl e \<Rightarrow> Inl e | Inr df1 \<Rightarrow>
      case assign df1 ''job_postings'' ''job_postings'' str_strip of Inl e \<Rightarrow> Inl e | Inr df2 \<Rightarrow>
      case assign df2 ''company'' ''company'' str_strip of Inl e \<Rightarrow> Inl e | Inr df3 \<Rightarrow>
      case assign df3 ''place'' ''place'' str_strip of Inl e \<Rightarrow> Inl e | Inr df4 \<Rightarrow>
      case assign df4 ''city'' ''place'' city_of of Inl e \<Rightarrow> Inl e | Inr df5 \<Rightarrow>
      sort_values_desc df5 ''posted_on'')"

section \<open>Aggregates\<close>

text \<open>The distinct values of a list, in the order of their first occurrence.\<close>

definition unique :: "'a list \<Rightarrow> 'a list" where
  "unique xs = rev (remdups (rev xs))"

text \<open>
  Modelled from the spec: \<^verbatim>\<open>Series.value_counts()\<close> is code of the pandas library, not
  of this repository. Missing values are not counted; each distinct value is paired with
  its number of occurrences; the pairs are ordered by count, descending, and pairs with
  equal counts stay in the order in which their values first occur.
\<close>

definition value_counts :: "cell list \<Rightarrow> (cell \<times> nat) list" where
  "value_counts col =
     (let vals = filter (\<lambda>v. v \<noteq> NaN) col
      in sort_key (\<lambda>(v, n). - int n) (map (\<lambda>v. (v, count_list vals v)) (unique vals)))"

text \<open>\<^verbatim>\<open>df[c].value_counts().head(5)\<close>\<close>

definition top5 :: "frame \<Rightarrow> string \<Rightarrow> py_error + (cell \<times> nat) list" where
  "top5 df c =
     (case getitem df c of
        Inl e \<Rightarrow> Inl e
      | Inr col \<Rightarrow> Inr (take 5 (value_counts col)))"

text \<open>The position at which a value first occurs in a list.\<close>

definition first_index :: "'a \<Rightarrow> 'a list \<Rightarrow> nat" where
  "first_index x xs = length (takeWhile (\<lambda>y. y \<noteq> x) xs)"

section \<open>The dashboard's table update\<close>

text \<open>
  \<^verbatim>\<open>sorted(values)\<close>: text is ordered by code points, timestamps by time, and text is
  not comparable with a timestamp.
\<close>

definition py_sorted :: "cell list \<Rightarrow> py_error + cell list" where
  "py_sorted vs =
     (if \<forall>v \<in> set vs. case v of Str s \<Rightarrow> True | _ \<Rightarrow> False
        then Inr (map Str (sort (concat (map (\<lambda>v. case v of Str s \<Rightarrow> [s] | _ \<Rightarrow> []) vs))))
      else if \<forall>v \<in> set vs. case v of Ts t \<Rightarrow> True | _ \<Rightarrow> False
        then Inr (map Ts (sort (concat (map (\<lambda>v. case v of Ts t \<Rightarrow> [t] | _ \<Rightarrow> []) vs))))
      else Inl TypeError)"

text \<open>\<^verbatim>\<open>sorted(df[c].dropna().unique())\<close>\<close>

definition dropdown_options :: "frame \<Rightarrow> string \<Rightarrow> py_error + cell list" where
  "dropdown_options df c =
     (case getitem df c of
        Inl e \<Rightarrow> Inl e
      | Inr col \<Rightarrow> py_sorted (unique (filter (\<lambda>v. v \<noteq> NaN) col)))"

text \<open>\<^verbatim>\<open>series.isin(values)\<close>, one element, for a list of strings.\<close>

definition isin :: "cell \<Rightarrow> string list \<Rightarrow> bool" where
  "isin v vals = (case v of Str s \<Rightarrow> s \<in> set vals | _ \<Rightarrow> False)"

text \<open>\<^verbatim>\<open>filtered_df[filtered_df[c].isin(values)]\<close>\<close>

definition filter_isin :: "string \<Rightarrow> string list \<Rightarrow> frame \<Rightarrow> py_error + frame" where
  "filter_isin c vals df =
     (case getitem df c of
        Inl e \<Rightarrow> Inl e
      | Inr col \<Rightarrow> Inr (mask_rows df (map (\<lambda>v. isin v vals) col)))"

text \<open>\<^verbatim>\<open>[k.strip().lower() for k in keywords.split(",") if k.strip()]\<close>\<close>

definition keyword_terms :: "string \<Rightarrow> string list" where
  "keyword_terms keywords =
     map (\<lambda>k. lower (strip k)) (filter (\<lambda>k. strip k \<noteq> []) (split_on CHR '','' keywords))"

text \<open>\<^verbatim>\<open>series.fillna("")\<close> and \<^verbatim>\<open>series.str.lower()\<close>, one element.\<close>

definition fillna_empty :: "cell \<Rightarrow> cell" where
  "fillna_empty c = (case c of NaN \<Rightarrow> Str [] | _ \<Rightarrow> c)"

definition str_lower :: "cell \<Rightarrow> cell" where
  "str_lower c = (case c of Str s \<Rightarrow> Str (lower s) | _ \<Rightarrow> NaN)"

text \<open>
  \<^verbatim>\<open>lambda text: any(term in text for term in terms)\<close>: \<^verbatim>\<open>term in text\<close> is a
  \<open>TypeError\<close> when \<open>text\<close> is not a string, and is not evaluated when there is no
  term.
\<close>

definition term_match :: "string list \<Rightarrow> cell \<Rightarrow> py_error + bool" where
  "term_match terms text =
     (case text of
        Str t \<Rightarrow> Inr (list_ex (\<lambda>term. contains term t) terms)
      | _ \<Rightarrow> if terms = [] then Inr False else Inl TypeError)"

text \<open>The body of \<^verbatim>\<open>if keywords:\<close>.\<close>

definition keyword_filter :: "string \<Rightarrow> frame \<Rightarrow> py_error + frame" where
  "keyword_filter keywords df =
     (let terms = keyword_terms keywords in
      case getitem df ''job_description'' of
        Inl e \<Rightarrow> Inl e
      | Inr col \<Rightarrow>
          (case traverse (term_match terms) (map (\<lambda>c. str_lower (fillna_empty c)) col) of
             Inl e \<Rightarrow> Inl e
           | Inr keep \<Rightarrow> Inr (mask_rows df keep)))"

text \<open>\<^verbatim>\<open>if arg: df = f(arg, df)\<close>: \<^verbatim>\<open>None\<close>, the empty list and the empty string are false.\<close>

definition if_given :: "'a list option \<Rightarrow> ('a list \<Rightarrow> frame \<Rightarrow> py_error + frame) \<Rightarrow> frame \<Rightarrow> py_error + frame" where
  "if_given arg f df = (case arg of None \<Rightarrow> Inr df | Some v \<Rightarrow> if v = [] then Inr df else f v df)"

text \<open>
  \<^verbatim>\<open>main_dash.py\<close>, \<^verbatim>\<open>update_table\<close>; \<open>df\<close> is the value of \<^verbatim>\<open>load_data()\<close>.
  The result is the three lists of dropdown values and the records of the table.
\<close>

definition update_table ::
  "frame \<Rightarrow> string list option \<Rightarrow> string list option \<Rightarrow> string list option \<Rightarrow> string option
     \<Rightarrow> py_error + (cell list \<times> cell list \<times> cell list \<times> row list)" where
  "update_table df companies places statuses keywords =
     (if frame_empty df then Inr ([], [], [], [])
      else
        case dropdown_options df ''company'' of Inl e \<Rightarrow> Inl e | Inr company_options \<Rightarrow>
        case dropdown_options df ''place'' of Inl e \<Rightarrow> Inl e | Inr place_options \<Rightarrow>
        case dropdown_options df ''status'' of Inl e \<Rightarrow> Inl e | Inr status_options \<Rightarrow>
        case if_given companies (filter_isin ''company'') df of Inl e \<Rightarrow> Inl e | Inr f1 \<Rightarrow>
        case if_given places (filter_isin ''place'') f1 of Inl e \<Rightarrow> Inl e | Inr f2 \<Rightarrow>
        case if_given statuses (filter_isin ''status'') f2 of Inl e \<Rightarrow> Inl e | Inr f3 \<Rightarrow>
        case if_given keywords keyword_filter f3 of Inl e \<Rightarrow> Inl e | Inr f4 \<Rightarrow>
        Inr (company_options, place_options, status_options, rows f4))"

section \<open>Texts of relative dates\<close>

text \<open>The decimal numeral of a natural number, as \<^verbatim>\<open>str(n)\<close> writes it.\<close>

fun show_nat :: "nat \<Rightarrow> string" where
  "show_nat n =
     (if n < 10 then [char_of (48 + n)] else show_nat (n div 10) @ [char_of (48 + n mod 10)])"

text \<open>The text \<^verbatim>\<open>"<n> <unit> ago"\<close>.\<close>

definition ago_text :: "nat \<Rightarrow> string \<Rightarrow> string" where
  "ago_text n unit_word = show_nat n @ '' '' @ unit_word @ '' ago''"

text \<open>A calendar parser that recognises no date: \<^verbatim>\<open>NaT\<close> for every string.\<close>

definition rejects_all :: to_datetime where
  "rejects_all date_str = Inr None"

section \<open>The claims' vocabulary\<close>










text \<open>
  A sheet of three postings whose headers differ from the expected ones by case and
  spaces, the table loaded from it, and the table after cleaning with the reference date
  2025-09-05 (the second posting has no readable date).
\<close>

definition example_sheet :: "string list list" where
  "example_sheet =
     [[''Job Postings'', '' Company'', ''PLACE'', ''Status'', ''Posted On '', ''Url Link''],
      ['' A '', ''X'', '' City1, State1 '', ''Open'', ''1 week ago'', ''http://a''],
      [''B'', ''Y'', ''City2'', ''Open'', ''yesterday-ish'', ''http://b''],
      [''C'', ''X '', ''Remote'', ''Closed'', ''2 Months ago'', ''http://c'']]"

definition example_loaded :: frame where
  "example_loaded =
     \<lparr>columns = [''job_postings'', ''company'', ''place'', ''status'', ''posted_on'', ''url_link''],
      rows =
        [[(''job_postings'', Str '' A ''), (''company'', Str ''X''),
          (''place'', Str '' City1, State1 ''), (''status'', Str ''Open''),
          (''posted_on'', Str ''1 week ago''), (''url_link'', Str ''http://a'')],
         [(''job_postings'', Str ''B''), (''company'', Str ''Y''),
          (''place'', Str ''City2''), (''status'', Str ''Open''),
          (''posted_on'', Str ''yesterday-ish''), (''url_link'', Str ''http://b'')],
         [(''job_postings'', Str ''C''), (''company'', Str ''X ''),
          (''place'', Str ''Remote''), (''status'', Str ''Closed''),
          (''posted_on'', Str ''2 Months ago''), (''url_link'', Str ''http://c'')]]\<rparr>"

definition example_cleaned :: frame where
  "example_cleaned =
     \<lparr>columns = [''job_postings'', ''company'', ''place'', ''status'', ''posted_on'', ''url_link'',
                 ''city''],
      rows =
        [[(''job_postings'', Str ''A''), (''company'', Str ''X''),
          (''place'', Str ''City1, State1''), (''status'', Str ''Open''),
          (''posted_on'', Ts 63892022400000000), (''url_link'', Str ''http://a''),
          (''city'', Str ''City1'')],
         [(''job_postings'', Str ''C''), (''company'', Str ''X''),
          (''place'', Str ''Remote''), (''status'', Str ''Closed''),
          (''posted_on'', Ts 63887443200000000), (''url_link'', Str ''http://c''),
          (''city'', Str ''Remote'')]]\<rparr>"

text \<open>The key by which \<open>value_counts\<close> sorts: the count, negated.\<close>

definition count_key :: "cell \<times> nat \<Rightarrow> int" where
  "count_key e = - int (snd e)"

text \<open>The values of a column, record by record: the input sequence of an aggregation.\<close>

definition column_values :: "frame \<Rightarrow> string \<Rightarrow> cell list" where
  "column_values df c = map (\<lambda>r. lookup r c) (rows df)"

text \<open>Ten postings of seven companies.\<close>

definition example_postings :: frame where
  "example_postings =
     \<lparr>columns = [''company''],
      rows = map (\<lambda>name. [(''company'', Str name)])
               [''A'', ''B'', ''C'', ''B'', ''D'', ''E'', ''C'', ''F'', ''G'', ''B'']\<rparr>"

text \<open>
  The rows of a top-\<open>n\<close> aggregation of a column, in the words of the specification:
  \<open>min n d\<close> rows, \<open>d\<close> the number of distinct values; each row a value of the
  column with the number of its occurrences; no value twice; counts descending; rows with
  equal counts in the order in which their values first occur; and every value that has no
  row has a count no greater than any row's and, at equal counts, occurs first after that
  row's value (the rows are the top of the ranking, not any part of it).
\<close>

definition top_rows :: "nat \<Rightarrow> cell list \<Rightarrow> (cell \<times> nat) list \<Rightarrow> bool" where
  "top_rows n col res =
     (length res = min n (card (set col - {NaN})) \<and>
      (\<forall>e \<in> set res. fst e \<in> set col \<and> fst e \<noteq> NaN \<and> snd e = count_list col (fst e)) \<and>
      distinct (map fst res) \<and>
      sorted_wrt (\<lambda>a b. snd b \<le> snd a) res \<and>
      (\<forall>i j. i < j \<and> j < length res \<and> snd (res ! i) = snd (res ! j) \<longrightarrow>
         first_index (fst (res ! i)) col < first_index (fst (res ! j)) col) \<and>
      (\<forall>v \<in> set col - {NaN}. v \<notin> fst ` set res \<longrightarrow>
         (\<forall>e \<in> set res. count_list col v \<le> snd e \<and>
            (count_list col v = snd e \<longrightarrow> first_index (fst e) col < first_index v col))))"

text \<open>The ranking: a greater count first, then an earlier first occurrence.\<close>

definition ranks_before :: "cell list \<Rightarrow> cell \<times> nat \<Rightarrow> cell \<times> nat \<Rightarrow> bool" where
  "ranks_before col a b =
     (snd b < snd a \<or> (snd a = snd b \<and> first_index (fst a) col < first_index (fst b) col))"

text \<open>
  What the specification asks of a record whose location is \<open>raw\<close> in the loaded table:
  the trimmed location, and the city, which is the trimmed location up to, not including,
  its first comma, trimmed. A record without a location has neither.
\<close>

definition location_city :: "cell \<Rightarrow> cell \<times> cell" where
  "location_city raw =
     (case raw of
        Str s \<Rightarrow> (Str (strip s), Str (strip (takeWhile (\<lambda>c. c \<noteq> CHR '','') (strip s))))
      | _ \<Rightarrow> (NaN, NaN))"

section \<open>Decimal numerals\<close>

declare show_nat.simps [simp del]

lemma is_digit_char_of: "(d::nat) < 10 \<Longrightarrow> is_digit (char_of (48 + d))"
  by (simp add: is_digit_def)

lemma digit_value_char_of: "(d::nat) < 10 \<Longrightarrow> of_char (char_of (48 + d :: nat)) - 48 = d"
  by simp

lemma show_nat_digits: "\<forall>c \<in> set (show_nat n). is_digit c"
proof (induction n rule: show_nat.induct)
  case (1 n)
  show ?case
  proof (cases "n < 10")
    case True
    then show ?thesis by (subst show_nat.simps) (simp add: is_digit_char_of)
  next
    case False
    have "n mod 10 < 10" by simp
    then have "is_digit (char_of (48 + n mod 10))" by (rule is_digit_char_of)
    with False 1 show ?thesis by (subst show_nat.simps) auto
  qed
qed

lemma show_nat_nonempty: "show_nat n \<noteq> []"
  by (subst show_nat.simps) simp

lemma dec_value_append: "dec_value acc (xs @ ys) = dec_value (dec_value acc xs) ys"
  by (induction xs arbitrary: acc) auto

lemma dec_value_show_nat: "dec_value 0 (show_nat n) = n"
proof (induction n rule: show_nat.induct)
  case (1 n)
  show ?case
  proof (cases "n < 10")
    case True
    then show ?thesis by (subst show_nat.simps) (simp add: is_digit_def)
  next
    case False
    have d: "is_digit (char_of (48 + n mod 10))" by (simp add: is_digit_char_of)
    have v: "of_char (char_of (48 + n mod 10 :: nat)) - 48 = n mod 10"
      by (rule digit_value_char_of) simp
    from False 1 have ih: "dec_value 0 (show_nat (n div 10)) = n div 10" by simp
    have "dec_value 0 (show_nat n) = dec_value (n div 10) [char_of (48 + n mod 10)]"
      using False ih by (subst show_nat.simps) (simp add: dec_value_append)
    also have "\<dots> = 10 * (n div 10) + n mod 10"
      using d v by simp
    finally show ?thesis by simp
  qed
qed

lemma digits_ok_all_digits: "\<forall>c \<in> set ds. is_digit c \<Longrightarrow> digits_ok b ds = (b \<or> ds \<noteq> [])"
  by (induction ds arbitrary: b) auto

lemma digit_not_space: "is_digit c \<Longrightarrow> \<not> is_space c"
  by (auto simp: is_digit_def is_space_def Let_def)

lemma strip_no_space: "\<forall>c \<in> set s. \<not> is_space c \<Longrightarrow> strip s = s"
proof -
  assume a: "\<forall>c \<in> set s. \<not> is_space c"
  then have "dropWhile is_space s = s" by (cases s) auto
  moreover from a have "dropWhile is_space (rev s) = rev s" by (cases "rev s") (auto dest: arg_cong[where f=set])
  ultimately show ?thesis by (simp add: strip_def)
qed

lemma digit_not_sign: "is_digit c \<Longrightarrow> c \<noteq> CHR ''-'' \<and> c \<noteq> CHR ''+''"
  by (auto simp: is_digit_def)

lemma py_int_digits:
  assumes "\<forall>c \<in> set ds. is_digit c" "ds \<noteq> []" "length ds \<le> int_max_str_digits"
  shows "py_int ds = Inr (int (dec_value 0 ds))"
proof -
  from assms(1) have "strip ds = ds" by (intro strip_no_space) (auto dest: digit_not_space)
  moreover obtain c cs where ds: "ds = c # cs" using assms(2) by (cases ds) auto
  moreover have "c \<noteq> CHR ''-''" "c \<noteq> CHR ''+''" using assms(1) ds digit_not_sign by auto
  moreover have "digits_ok False ds" using assms by (simp add: digits_ok_all_digits)
  moreover have "is_digit c" using assms(1) ds by simp
  moreover have "filter is_digit ds = ds" using assms(1) by (simp add: filter_id_conv)
  ultimately show ?thesis using assms(3) by (simp add: py_int_def)
qed

lemma length_show_nat: "n < 10 ^ k \<Longrightarrow> 0 < k \<Longrightarrow> length (show_nat n) \<le> k"
proof (induction n arbitrary: k rule: show_nat.induct)
  case (1 n)
  show ?case
  proof (cases "n < 10")
    case True
    with 1(3) show ?thesis by (subst show_nat.simps) simp
  next
    case False
    obtain j where k: "k = Suc j" using 1(3) by (cases k) auto
    from False 1(2) have "0 < j" unfolding k by (cases j) auto
    moreover from 1(2) have "n div 10 < 10 ^ j" unfolding k by (simp add: less_mult_imp_div_less)
    ultimately have "length (show_nat (n div 10)) \<le> j" using 1(1) False by simp
    then show ?thesis unfolding k using False by (subst show_nat.simps) simp
  qed
qed

lemma py_int_show_nat: "n < 10 ^ 7 \<Longrightarrow> py_int (show_nat n) = Inr (int n)"
proof -
  assume "n < 10 ^ 7"
  then have "length (show_nat n) \<le> 7" by (rule length_show_nat) simp
  then have "length (show_nat n) \<le> int_max_str_digits" by (simp add: int_max_str_digits_def)
  then show ?thesis
    by (simp add: py_int_digits show_nat_digits show_nat_nonempty dec_value_show_nat)
qed

section \<open>Lower case\<close>

lemma is_space_lower_char [simp]: "is_space (lower_char c) = is_space c"
  by (auto simp: is_space_def lower_char_def Let_def)

lemma is_digit_lower_char [simp]: "is_digit (lower_char c) = is_digit c"
  by (auto simp: is_digit_def lower_char_def Let_def)

lemma lower_char_digit: "is_digit c \<Longrightarrow> lower_char c = c"
  by (auto simp: is_digit_def lower_char_def Let_def)

lemma of_char_lower_char:
  "(of_char (lower_char c) :: nat) =
     (if (65 \<le> (of_char c :: nat) \<and> (of_char c :: nat) \<le> 90) \<or>
         (192 \<le> (of_char c :: nat) \<and> (of_char c :: nat) \<le> 222 \<and> (of_char c :: nat) \<noteq> 215)
      then of_char c + 32 else of_char c)"
  by (simp add: lower_char_def Let_def)

lemma lower_char_eq_nonletter:
  assumes "(of_char d :: nat) < 65 \<or> (90 < (of_char d :: nat) \<and> (of_char d :: nat) < 97) \<or>
           (122 < (of_char d :: nat) \<and> (of_char d :: nat) < 192)"
  shows "(lower_char c = d) = (c = d)"
proof
  assume "lower_char c = d"
  then have "(of_char (lower_char c) :: nat) = of_char d" by simp
  with assms have "(of_char c :: nat) = of_char d"
    by (auto simp: of_char_lower_char split: if_splits)
  then show "c = d" by simp
next
  assume "c = d"
  with assms show "lower_char c = d" by (auto simp: lower_char_def Let_def)
qed

lemma lower_char_eq_minus [simp]: "(lower_char c = CHR ''-'') = (c = CHR ''-'')"
  by (rule lower_char_eq_nonletter) simp

lemma lower_char_eq_plus [simp]: "(lower_char c = CHR ''+'') = (c = CHR ''+'')"
  by (rule lower_char_eq_nonletter) simp

lemma lower_char_eq_underscore [simp]: "(lower_char c = CHR ''_'') = (c = CHR ''_'')"
  by (rule lower_char_eq_nonletter) simp

lemma lower_append: "lower (a @ b) = lower a @ lower b"
  by (simp add: lower_def)

lemma lower_digits: "\<forall>c \<in> set ds. is_digit c \<Longrightarrow> lower ds = ds"
  by (induction ds) (auto simp: lower_def lower_char_digit)

lemma dropWhile_space_lower: "dropWhile is_space (map lower_char s) = map lower_char (dropWhile is_space s)"
  by (induction s) auto

lemma strip_lower: "strip (lower s) = lower (strip s)"
proof -
  have "rev (dropWhile is_space (rev (dropWhile is_space (map lower_char s)))) =
        rev (dropWhile is_space (map lower_char (rev (dropWhile is_space s))))"
    by (simp only: dropWhile_space_lower rev_map)
  also have "\<dots> = map lower_char (rev (dropWhile is_space (rev (dropWhile is_space s))))"
    by (simp only: dropWhile_space_lower rev_map)
  finally show ?thesis by (simp add: strip_def lower_def)
qed

lemma digits_ok_lower: "digits_ok b (map lower_char s) = digits_ok b s"
  by (induction s arbitrary: b) auto

lemma dec_value_lower: "dec_value acc (map lower_char s) = dec_value acc s"
  by (induction s arbitrary: acc) (auto simp: lower_char_digit)

lemma is_digit_comp_lower: "is_digit \<circ> lower_char = is_digit"
  by (simp add: fun_eq_iff)

lemma py_int_lower: "py_int (lower s) = py_int s"
proof -
  have "py_int (lower s) =
    (let t = lower (strip s);
          (neg, body) = (case t of
                           [] \<Rightarrow> (False, [])
                         | c # cs \<Rightarrow> if c = CHR ''-'' then (True, cs)
                                    else if c = CHR ''+'' then (False, cs)
                                    else (False, t))
      in if digits_ok False body \<and> length (filter is_digit body) \<le> int_max_str_digits
         then Inr (if neg then - int (dec_value 0 body) else int (dec_value 0 body))
         else Inl ValueError)"
    by (simp add: py_int_def strip_lower)
  also have "\<dots> = py_int s"
    by (cases "strip s")
      (simp_all add: py_int_def lower_def digits_ok_lower dec_value_lower lower_char_digit
         filter_map is_digit_comp_lower)
  finally show ?thesis .
qed

lemma split_ws_aux_lower:
  "split_ws_aux (map lower_char cur) (map lower_char s) = map lower (split_ws_aux cur s)"
proof (induction s arbitrary: cur)
  case Nil
  show ?case by (simp add: lower_def rev_map)
next
  case (Cons c cs)
  have "split_ws_aux (lower_char c # map lower_char cur) (map lower_char cs) = map lower (split_ws_aux (c # cur) cs)"
    using Cons [of "c # cur"] by simp
  moreover have "split_ws_aux [] (map lower_char cs) = map lower (split_ws_aux [] cs)"
    using Cons [of "[]"] by simp
  ultimately show ?case by (simp add: lower_def rev_map)
qed

lemma first_token_lower:
  "first_token (lower s) = (case first_token s of Inl e \<Rightarrow> Inl e | Inr t \<Rightarrow> Inr (lower t))"
proof -
  have "split_ws (lower s) = map lower (split_ws s)"
    using split_ws_aux_lower [of "[]" s] by (simp add: split_ws_def lower_def)
  then show ?thesis by (cases "split_ws s") (simp_all add: first_token_def)
qed

lemma ago_shift_lower: "ago_shift (lower s) mk T = ago_shift s mk T"
  by (cases "first_token s") (simp_all add: ago_shift_def first_token_lower py_int_lower)

lemma try_body2_eq: "try_body2 to_dt s T = try_body1 to_dt s T"
  by (simp add: try_body2_def try_body1_def Let_def ago_shift_lower)

section \<open>Substrings\<close>

lemma starts_with_append: "starts_with sub (sub @ b)"
  by (induction sub) auto

lemma contains_append_left: "contains sub t \<Longrightarrow> contains sub (a @ t)"
  by (induction a) auto

lemma contains_mid: "contains sub (a @ sub @ b)"
proof (rule contains_append_left)
  show "contains sub (sub @ b)"
    by (cases "sub @ b") (use starts_with_append [of sub b] in auto)
qed

lemma contains_skip: "p \<notin> set a \<Longrightarrow> contains (p # ps) (a @ t) = contains (p # ps) t"
  by (induction a) auto


section \<open>The first token\<close>

lemma split_ws_aux_token:
  "\<forall>c \<in> set ds. \<not> is_space c \<Longrightarrow> is_space sp \<Longrightarrow> cur \<noteq> [] \<or> ds \<noteq> [] \<Longrightarrow>
   split_ws_aux cur (ds @ sp # rest) = (rev cur @ ds) # split_ws_aux [] rest"
  by (induction ds arbitrary: cur) auto

lemma first_token_prefix:
  "\<forall>c \<in> set ds. \<not> is_space c \<Longrightarrow> ds \<noteq> [] \<Longrightarrow> is_space sp \<Longrightarrow> first_token (ds @ sp # rest) = Inr ds"
  using split_ws_aux_token [of ds sp "[]" rest] by (simp add: first_token_def split_ws_def)

section \<open>Relative dates within the range of \<^verbatim>\<open>datetime\<close>\<close>

lemma delta_in_range:
  assumes "valid_datetime T" "valid_datetime (T - d * us_per_day)"
  shows "timedelta_days d = Inr d"
proof -
  from assms have "- 3652059 < d \<and> d < 3652059"
    unfolding valid_datetime_def datetime_max_def us_per_day_def by arith
  then show ?thesis by (simp add: timedelta_days_def)
qed

lemma ago_shift_in_range:
  assumes "first_token s = Inr tok" "py_int tok = Inr n" "mk n = timedelta_days (k * n)"
    and "valid_datetime T" "valid_datetime (T - k * n * us_per_day)"
  shows "ago_shift s mk T = Inr (Ts (T - k * n * us_per_day))"
proof -
  have "timedelta_days (k * n) = Inr (k * n)"
    using delta_in_range [of T "k * n"] assms(4,5) by simp
  then show ?thesis using assms by (simp add: ago_shift_def datetime_sub_def)
qed

lemma parse1_of_try_body: "try_body1 to_dt s T = Inr c \<Longrightarrow> parse_relative_date1 to_dt s T = Inr c"
  by (simp add: parse_relative_date1_def)

lemma parse2_of_try_body: "try_body1 to_dt s T = Inr c \<Longrightarrow> parse_relative_date2 to_dt s T = Inr c"
  by (simp add: parse_relative_date2_def try_body2_eq)

lemma parse_month:
  assumes "contains ''ago'' (lower s)" "contains ''month'' (lower s)"
    and "first_token s = Inr tok" "py_int tok = Inr n"
    and "valid_datetime T" "valid_datetime (T - 30 * n * us_per_day)"
  shows "try_body1 to_dt s T = Inr (Ts (T - 30 * n * us_per_day))"
  using assms ago_shift_in_range [of s tok n "\<lambda>months. timedelta_days (months * 30)" 30 T]
  by (simp add: try_body1_def mult.commute)

lemma parse_week:
  assumes "contains ''ago'' (lower s)" "\<not> contains ''month'' (lower s)" "contains ''week'' (lower s)"
    and "first_token s = Inr tok" "py_int tok = Inr n"
    and "valid_datetime T" "valid_datetime (T - 7 * n * us_per_day)"
  shows "try_body1 to_dt s T = Inr (Ts (T - 7 * n * us_per_day))"
  using assms ago_shift_in_range [of s tok n timedelta_weeks 7 T]
  by (simp add: try_body1_def timedelta_weeks_def)

lemma parse_day:
  assumes "contains ''ago'' (lower s)" "\<not> contains ''month'' (lower s)" "\<not> contains ''week'' (lower s)"
    and "contains ''day'' (lower s)"
    and "first_token s = Inr tok" "py_int tok = Inr n"
    and "valid_datetime T" "valid_datetime (T - n * us_per_day)"
  shows "try_body1 to_dt s T = Inr (Ts (T - n * us_per_day))"
  using assms ago_shift_in_range [of s tok n timedelta_days 1 T]
  by (simp add: try_body1_def)

lemma lower_ago_text:
  "lower (ago_text n u) = show_nat n @ '' '' @ lower u @ '' ago''"
proof -
  have "lower '' '' = '' ''" "lower '' ago'' = '' ago''"
    by (simp_all add: lower_def lower_char_def)
  then show ?thesis
    by (simp add: ago_text_def lower_append lower_digits show_nat_digits del: append.simps)
qed

lemma first_token_ago_text: "first_token (ago_text n u) = Inr (show_nat n)"
proof -
  have "\<forall>c \<in> set (show_nat n). \<not> is_space c"
    using show_nat_digits digit_not_space by blast
  moreover have "is_space CHR '' ''" by (simp add: is_space_def)
  ultimately have "first_token (show_nat n @ CHR '' '' # (u @ '' ago'')) = Inr (show_nat n)"
    using show_nat_nonempty by (intro first_token_prefix) auto
  then show ?thesis by (simp add: ago_text_def)
qed

lemma contains_ago_text: "contains ''ago'' (lower (ago_text n u))"
proof -
  have "lower (ago_text n u) = (show_nat n @ '' '' @ lower u @ '' '') @ ''ago'' @ []"
    by (simp add: lower_ago_text)
  then show ?thesis by (simp only: contains_mid)
qed

lemma contains_unit_ago_text:
  "w \<noteq> [] \<Longrightarrow> \<not> is_digit (hd w) \<Longrightarrow> contains w (lower (ago_text n u)) = contains w ('' '' @ lower u @ '' ago'')"
proof -
  assume w: "w \<noteq> []" "\<not> is_digit (hd w)"
  then obtain p ps where pp: "w = p # ps" by (cases w) auto
  with w have "p \<notin> set (show_nat n)" using show_nat_digits by auto
  then show ?thesis unfolding lower_ago_text pp by (rule contains_skip)
qed

lemma valid_shift_back:
  "valid_datetime T \<Longrightarrow> d * us_per_day \<le> T \<Longrightarrow> 0 \<le> d \<Longrightarrow> valid_datetime (T - d * us_per_day)"
  by (simp add: valid_datetime_def us_per_day_def)

lemma unit_m: "contains ''month'' (lower (ago_text n u)) = contains ''month'' ('' '' @ lower u @ '' ago'')"
  by (rule contains_unit_ago_text) (simp_all add: is_digit_def)

lemma unit_w: "contains ''week'' (lower (ago_text n u)) = contains ''week'' ('' '' @ lower u @ '' ago'')"
  by (rule contains_unit_ago_text) (simp_all add: is_digit_def)

lemma unit_d: "contains ''day'' (lower (ago_text n u)) = contains ''day'' ('' '' @ lower u @ '' ago'')"
  by (rule contains_unit_ago_text) (simp_all add: is_digit_def)

lemma lw: "lower ''week'' = ''week''" "lower ''weeks'' = ''weeks''" "lower ''day'' = ''day''"
    "lower ''days'' = ''days''" "lower ''month'' = ''month''" "lower ''months'' = ''months''"
    by (simp_all add: lower_def lower_char_def)

lemma week_words:
  assumes "u = ''week'' \<or> u = ''weeks''"
  shows "\<not> contains ''month'' (lower (ago_text n u))" "contains ''week'' (lower (ago_text n u))"
  using assms by (auto simp: unit_m unit_w lw)

lemma day_words:
  assumes "u = ''day'' \<or> u = ''days''"
  shows "\<not> contains ''month'' (lower (ago_text n u))" "\<not> contains ''week'' (lower (ago_text n u))"
    "contains ''day'' (lower (ago_text n u))"
  using assms by (auto simp: unit_m unit_w unit_d lw)

lemma month_words:
  assumes "u = ''month'' \<or> u = ''months''"
  shows "contains ''month'' (lower (ago_text n u))"
  using assms by (auto simp: unit_m lw)

lemma cell_kind_try_body1:
  "try_body1 to_dt s T = Inr c \<Longrightarrow> c = NaN \<or> (\<exists>t. c = Ts t)"
  by (auto simp: try_body1_def ago_shift_def call_to_datetime_def cell_of_ts_def
           split: if_splits sum.splits option.splits)

lemma parse_relative_date2_total:
  "\<exists>c. parse_relative_date2 to_dt s T = Inr c \<and> (c = NaN \<or> (\<exists>t. c = Ts t))"
proof (cases "try_body1 to_dt s T")
  case (Inl e)
  then show ?thesis by (simp add: parse_relative_date2_def try_body2_eq)
next
  case (Inr c)
  then show ?thesis using cell_kind_try_body1 [OF Inr]
    by (simp add: parse_relative_date2_def try_body2_eq)
qed

text \<open>
  C2. The claim: for every input string the relative-date parser returns a timestamp or the
  parse-failure sentinel and never raises to its caller. The parser of \<^verbatim>\<open>testdash2.py\<close>
  does so (\<open>parse_relative_date2_total\<close>). The parser of \<^verbatim>\<open>testdash.py\<close> catches
  \<open>ValueError\<close> and \<open>TypeError\<close> only: on \<^verbatim>\<open>"30000 months ago"\<close>, with the
  reference date 2025-09-05 of the script, the subtraction leaves the range of
  \<^verbatim>\<open>datetime\<close> and the \<open>OverflowError\<close> reaches the caller, whatever the calendar
  parser is.
\<close>

theorem parse_relative_date1_raises_overflow:
  "parse_relative_date1 to_dt ''30000 months ago'' default_reference = Inl OverflowError"
  by (simp add: parse_relative_date1_def try_body1_def lower_def lower_char_def ago_shift_def
      first_token_def split_ws_def is_space_def py_int_def int_max_str_digits_def strip_def is_digit_def
      timedelta_days_def datetime_sub_def valid_datetime_def default_reference_def
      us_per_day_def datetime_max_def)

text \<open>
  C3, as amended. For every reference instant \<open>T\<close> and every natural number \<open>n\<close> such
  that the shifted instant is not earlier than 0001-01-01T00:00:00, the least
  \<^verbatim>\<open>datetime\<close>: both parsers map \<^verbatim>\<open>"n weeks ago"\<close> (and \<^verbatim>\<open>"n week ago"\<close>) to
  \<open>T\<close> minus \<open>7 n\<close> days, \<^verbatim>\<open>"n days ago"\<close> to \<open>T\<close> minus \<open>n\<close> days and
  \<^verbatim>\<open>"n months ago"\<close> to \<open>T\<close> minus \<open>30 n\<close> days, whatever the calendar parser is.
\<close>

theorem relative_date_units_in_range:
  assumes "valid_datetime T"
  shows "(7 * int n * us_per_day \<le> T \<and> u \<in> {''week'', ''weeks''} \<longrightarrow>
            parse_relative_date1 to_dt (ago_text n u) T = Inr (Ts (T - 7 * int n * us_per_day)) \<and>
            parse_relative_date2 to_dt (ago_text n u) T = Inr (Ts (T - 7 * int n * us_per_day)))
       \<and> (int n * us_per_day \<le> T \<and> u \<in> {''day'', ''days''} \<longrightarrow>
            parse_relative_date1 to_dt (ago_text n u) T = Inr (Ts (T - int n * us_per_day)) \<and>
            parse_relative_date2 to_dt (ago_text n u) T = Inr (Ts (T - int n * us_per_day)))
       \<and> (30 * int n * us_per_day \<le> T \<and> u \<in> {''month'', ''months''} \<longrightarrow>
            parse_relative_date1 to_dt (ago_text n u) T = Inr (Ts (T - 30 * int n * us_per_day)) \<and>
            parse_relative_date2 to_dt (ago_text n u) T = Inr (Ts (T - 30 * int n * us_per_day)))"
proof -
  note ft = first_token_ago_text [of n u]
  note ago = contains_ago_text [of n u]
  have small: "py_int (show_nat n) = Inr (int n)" if "int n * us_per_day \<le> T"
  proof (rule py_int_show_nat)
    from that assms show "n < 10 ^ 7"
      unfolding valid_datetime_def datetime_max_def us_per_day_def by simp
  qed
  have weeks: "try_body1 to_dt (ago_text n u) T = Inr (Ts (T - 7 * int n * us_per_day))"
    if "7 * int n * us_per_day \<le> T" "u \<in> {''week'', ''weeks''}"
  proof -
    from that(2) have u: "u = ''week'' \<or> u = ''weeks''" by simp
    have "valid_datetime (T - 7 * int n * us_per_day)"
      using valid_shift_back [OF assms, of "7 * int n"] that(1) by simp
    moreover have "int n * us_per_day \<le> T"
      using that(1) by (simp add: us_per_day_def)
    ultimately show ?thesis
      using parse_week [OF ago week_words [OF u] ft small assms] by simp
  qed
  have days: "try_body1 to_dt (ago_text n u) T = Inr (Ts (T - int n * us_per_day))"
    if "int n * us_per_day \<le> T" "u \<in> {''day'', ''days''}"
  proof -
    from that(2) have u: "u = ''day'' \<or> u = ''days''" by simp
    have "valid_datetime (T - int n * us_per_day)"
      using valid_shift_back [OF assms, of "int n"] that(1) by simp
    then show ?thesis
      using parse_day [OF ago day_words [OF u] ft small assms] that(1) by simp
  qed
  have months: "try_body1 to_dt (ago_text n u) T = Inr (Ts (T - 30 * int n * us_per_day))"
    if "30 * int n * us_per_day \<le> T" "u \<in> {''month'', ''months''}"
  proof -
    from that(2) have u: "u = ''month'' \<or> u = ''months''" by simp
    have "valid_datetime (T - 30 * int n * us_per_day)"
      using valid_shift_back [OF assms, of "30 * int n"] that(1) by simp
    moreover have "int n * us_per_day \<le> T"
      using that(1) by (simp add: us_per_day_def)
    ultimately show ?thesis
      using parse_month [OF ago month_words [OF u] ft small assms] by simp
  qed
  show ?thesis
  proof (intro conjI impI)
    assume a: "7 * int n * us_per_day \<le> T \<and> u \<in> {''week'', ''weeks''}"
    then have r: "try_body1 to_dt (ago_text n u) T = Inr (Ts (T - 7 * int n * us_per_day))"
      using weeks by blast
    show "parse_relative_date1 to_dt (ago_text n u) T = Inr (Ts (T - 7 * int n * us_per_day))"
      by (rule parse1_of_try_body [OF r])
    show "parse_relative_date2 to_dt (ago_text n u) T = Inr (Ts (T - 7 * int n * us_per_day))"
      by (rule parse2_of_try_body [OF r])
  next
    assume a: "int n * us_per_day \<le> T \<and> u \<in> {''day'', ''days''}"
    then have r: "try_body1 to_dt (ago_text n u) T = Inr (Ts (T - int n * us_per_day))"
      using days by blast
    show "parse_relative_date1 to_dt (ago_text n u) T = Inr (Ts (T - int n * us_per_day))"
      by (rule parse1_of_try_body [OF r])
    show "parse_relative_date2 to_dt (ago_text n u) T = Inr (Ts (T - int n * us_per_day))"
      by (rule parse2_of_try_body [OF r])
  next
    assume a: "30 * int n * us_per_day \<le> T \<and> u \<in> {''month'', ''months''}"
    then have r: "try_body1 to_dt (ago_text n u) T = Inr (Ts (T - 30 * int n * us_per_day))"
      using months by blast
    show "parse_relative_date1 to_dt (ago_text n u) T = Inr (Ts (T - 30 * int n * us_per_day))"
      by (rule parse1_of_try_body [OF r])
    show "parse_relative_date2 to_dt (ago_text n u) T = Inr (Ts (T - 30 * int n * us_per_day))"
      by (rule parse2_of_try_body [OF r])
  qed
qed

text \<open>
  The witness of C3: \<^verbatim>\<open>"2 weeks ago"\<close> is 14 days and \<^verbatim>\<open>"1 month ago"\<close> is 30 days before
  2025-09-05.
\<close>

theorem relative_date_units_in_range_witness:
  "valid_datetime default_reference \<and> 7 * int 2 * us_per_day \<le> default_reference \<and>
   30 * int 1 * us_per_day \<le> default_reference \<and>
   parse_relative_date1 rejects_all ''2 weeks ago'' default_reference = Inr (Ts (default_reference - 14 * us_per_day)) \<and>
   parse_relative_date2 rejects_all ''2 weeks ago'' default_reference = Inr (Ts (default_reference - 14 * us_per_day)) \<and>
   parse_relative_date1 rejects_all ''1 month ago'' default_reference = Inr (Ts (default_reference - 30 * us_per_day)) \<and>
   parse_relative_date2 rejects_all ''1 month ago'' default_reference = Inr (Ts (default_reference - 30 * us_per_day))"
proof -
  have v: "valid_datetime default_reference"
    by (simp add: valid_datetime_def default_reference_def datetime_max_def us_per_day_def)
  have t: "ago_text 2 ''weeks'' = ''2 weeks ago''" "ago_text 1 ''month'' = ''1 month ago''"
    by code_simp+
  have b: "7 * int 2 * us_per_day \<le> default_reference" "30 * int 1 * us_per_day \<le> default_reference"
    by (simp_all add: default_reference_def us_per_day_def)
  show ?thesis
    using relative_date_units_in_range [OF v, of 2 "''weeks''" rejects_all]
      relative_date_units_in_range [OF v, of 1 "''month''" rejects_all] v b t
    by simp
qed

text \<open>
  C3 as stated, for every \<open>n\<close>, fails: 30000 months are 900000 days, more than the 739498
  days between 0001-01-01 and 2025-09-05, and neither parser returns the shifted instant
  (the first raises \<open>OverflowError\<close>, the second returns the sentinel).
\<close>

theorem relative_date_out_of_range_counterexample:
  "parse_relative_date1 rejects_all ''30000 months ago'' default_reference
     \<noteq> Inr (Ts (default_reference - 30 * 30000 * us_per_day)) \<and>
   parse_relative_date2 rejects_all ''30000 months ago'' default_reference
     \<noteq> Inr (Ts (default_reference - 30 * 30000 * us_per_day))"
  by (simp add: parse_relative_date1_def parse_relative_date2_def try_body1_def try_body2_def
      lower_def lower_char_def ago_shift_def
      first_token_def split_ws_def is_space_def py_int_def int_max_str_digits_def strip_def is_digit_def
      timedelta_days_def datetime_sub_def valid_datetime_def default_reference_def
      us_per_day_def datetime_max_def)

text \<open>
  C4. For every string that contains \<^verbatim>\<open>ago\<close> and whose first token is an integer \<open>n\<close>:
  when \<^verbatim>\<open>month\<close> occurs, the duration is \<open>30 n\<close> days, whether or not \<^verbatim>\<open>week\<close> or
  \<^verbatim>\<open>day\<close> occur as well; when \<^verbatim>\<open>month\<close> does not occur and \<^verbatim>\<open>week\<close> does, it is
  \<open>7 n\<close> days, whether or not \<^verbatim>\<open>day\<close> occurs; only when neither occurs does
  \<^verbatim>\<open>day\<close> give \<open>n\<close> days. (The shifted instant is taken to be a \<^verbatim>\<open>datetime\<close>.)
\<close>

theorem unit_priority:
  assumes "contains ''ago'' (lower s)" "first_token s = Inr tok" "py_int tok = Inr n"
    and "valid_datetime T"
  shows "(contains ''month'' (lower s) \<and> valid_datetime (T - 30 * n * us_per_day) \<longrightarrow>
            parse_relative_date1 to_dt s T = Inr (Ts (T - 30 * n * us_per_day)) \<and>
            parse_relative_date2 to_dt s T = Inr (Ts (T - 30 * n * us_per_day)))
       \<and> (\<not> contains ''month'' (lower s) \<and> contains ''week'' (lower s) \<and>
            valid_datetime (T - 7 * n * us_per_day) \<longrightarrow>
            parse_relative_date1 to_dt s T = Inr (Ts (T - 7 * n * us_per_day)) \<and>
            parse_relative_date2 to_dt s T = Inr (Ts (T - 7 * n * us_per_day)))
       \<and> (\<not> contains ''month'' (lower s) \<and> \<not> contains ''week'' (lower s) \<and> contains ''day'' (lower s) \<and>
            valid_datetime (T - n * us_per_day) \<longrightarrow>
            parse_relative_date1 to_dt s T = Inr (Ts (T - n * us_per_day)) \<and>
            parse_relative_date2 to_dt s T = Inr (Ts (T - n * us_per_day)))"
  using parse_month [OF assms(1) _ assms(2,3,4), of to_dt]
    parse_week [OF assms(1) _ _ assms(2,3,4), of to_dt]
    parse_day [OF assms(1) _ _ _ assms(2,3,4), of to_dt]
    parse1_of_try_body [of to_dt s T] parse2_of_try_body [of to_dt s T]
  by blast

text \<open>
  The witness of C4: a text with all three unit words counts months, one with weeks and days
  counts weeks.
\<close>

theorem unit_priority_witness:
  "parse_relative_date1 rejects_all ''1 Month 2 weeks 3 days ago'' default_reference
     = Inr (Ts (default_reference - 30 * us_per_day)) \<and>
   parse_relative_date2 rejects_all ''1 Month 2 weeks 3 days ago'' default_reference
     = Inr (Ts (default_reference - 30 * us_per_day)) \<and>
   parse_relative_date1 rejects_all ''2 weeks 3 days ago'' default_reference
     = Inr (Ts (default_reference - 14 * us_per_day)) \<and>
   parse_relative_date2 rejects_all ''2 weeks 3 days ago'' default_reference
     = Inr (Ts (default_reference - 14 * us_per_day))"
proof -
  have v: "valid_datetime default_reference"
    by (simp add: valid_datetime_def default_reference_def datetime_max_def us_per_day_def)
  have a: "contains ''ago'' (lower ''1 Month 2 weeks 3 days ago'')"
       "contains ''month'' (lower ''1 Month 2 weeks 3 days ago'')"
       "contains ''ago'' (lower ''2 weeks 3 days ago'')"
       "\<not> contains ''month'' (lower ''2 weeks 3 days ago'')"
       "contains ''week'' (lower ''2 weeks 3 days ago'')"
    by code_simp+
  have f: "first_token ''1 Month 2 weeks 3 days ago'' = Inr ''1''"
       "first_token ''2 weeks 3 days ago'' = Inr ''2''"
    by (simp_all add: first_token_def split_ws_def is_space_def)
  have i: "py_int ''1'' = Inr 1" "py_int ''2'' = Inr 2"
    by (simp_all add: py_int_def int_max_str_digits_def strip_def is_space_def is_digit_def)
  have r: "valid_datetime (default_reference - 30 * 1 * us_per_day)"
       "valid_datetime (default_reference - 7 * 2 * us_per_day)"
    by (simp_all add: valid_datetime_def default_reference_def datetime_max_def us_per_day_def)
  show ?thesis
    using unit_priority [OF a(1) f(1) i(1) v, of rejects_all]
      unit_priority [OF a(3) f(2) i(2) v, of rejects_all] a r
    by simp
qed

section \<open>Masks, element-wise operations and the filters of the dashboard\<close>

lemma mask_of_map: "map fst (filter snd (zip xs (map p xs))) = filter p xs"
  by (induction xs) auto

lemma columns_mask_rows [simp]: "columns (mask_rows df keep) = columns df"
  by (simp add: mask_rows_def)

lemma set_rows_mask_rows: "set (rows (mask_rows df keep)) \<subseteq> set (rows df)"
  by (auto simp: mask_rows_def dest: set_zip_leftD)

lemma traverse_map: "traverse f (map g xs) = traverse (\<lambda>x. f (g x)) xs"
  by (induction xs) (simp_all split: sum.splits)







lemma set_unique [simp]: "set (unique xs) = set xs"
  by (simp add: unique_def)







lemma strip_last: "strip k \<noteq> [] \<Longrightarrow> \<not> is_space (last (strip k))"
proof -
  assume a: "strip k \<noteq> []"
  let ?d = "dropWhile is_space (rev (dropWhile is_space k))"
  from a have "?d \<noteq> []" by (simp add: strip_def)
  then have "\<not> is_space (hd ?d)" by (rule hd_dropWhile)
  moreover have "last (strip k) = hd ?d" using \<open>?d \<noteq> []\<close> by (simp add: strip_def last_rev)
  ultimately show ?thesis by simp
qed













lemma missing_cols_empty:
  "missing_cols df = [] \<Longrightarrow> set (map snd expected_columns) \<subseteq> set (columns df)"
  by (auto simp: missing_cols_def filter_empty_conv)

lemma load1_has_required:
  "load1 data = Inr df \<Longrightarrow> set (map snd expected_columns) \<subseteq> set (columns df)"
  by (rule missing_cols_empty) (auto simp: load1_def Let_def split: if_splits sum.splits)

lemma load2_has_required:
  "load2 data = Inr df \<Longrightarrow> set (map snd expected_columns) \<subseteq> set (columns df)"
  by (rule missing_cols_empty) (auto simp: load2_def Let_def split: if_splits sum.splits)

lemma load_stops_on_missing_title:
  "load1 [[''Company'', ''Place'', ''Status'', ''Posted On'', ''Url Link''],
          [''X'', ''City1, State1'', ''Open'', ''1 week ago'', ''http://a'']]
     = Inl (MissingColumns [''job_postings''])"
  "load2 [[''Company'', ''Place'', ''Status'', ''Posted On'', ''Url Link''],
          [''X'', ''City1, State1'', ''Open'', ''1 week ago'', ''http://a'']]
     = Inl (MissingColumns [''job_postings''])"
  by code_simp+

text \<open>
  C1. The claim: whenever a required canonical field is absent after the header mapping,
  loading fails with a schema error and no partial table reaches a consumer.
  \<^verbatim>\<open>testdash.py\<close> and \<^verbatim>\<open>testdash2.py\<close> stop on \<^verbatim>\<open>missing_cols\<close>
  (\<open>load1_has_required\<close>, \<open>load2_has_required\<close>). \<^verbatim>\<open>load_data\<close> of
  \<^verbatim>\<open>main_dash.py\<close> has no such check: for a sheet without the column
  \<^verbatim>\<open>Job Postings\<close>, \<^verbatim>\<open>update_table\<close> hands the table, without \<^verbatim>\<open>job_postings\<close>, to
  the data table of the page.
\<close>

theorem load_data_passes_partial_table:
  "''job_postings'' \<notin> set (columns (load_data (Inr
       \<lparr>columns = [''Company'', ''Place'', ''Status'', ''Posted On'', ''Url Link''],
        rows = [[(''Company'', Str ''X''), (''Place'', Str ''City1, State1''), (''Status'', Str ''Open''),
                 (''Posted On'', Str ''1 week ago''), (''Url Link'', Str ''http://a'')]]\<rparr>))) \<and>
   update_table (load_data (Inr
       \<lparr>columns = [''Company'', ''Place'', ''Status'', ''Posted On'', ''Url Link''],
        rows = [[(''Company'', Str ''X''), (''Place'', Str ''City1, State1''), (''Status'', Str ''Open''),
                 (''Posted On'', Str ''1 week ago''), (''Url Link'', Str ''http://a'')]]\<rparr>))
     None None None None =
   Inr ([Str ''X''], [Str ''City1, State1''], [Str ''Open''],
        [[(''company'', Str ''X''), (''place'', Str ''City1, State1''), (''status'', Str ''Open''),
          (''posted_on'', Str ''1 week ago''), (''url_link'', Str ''http://a'')]])"
  by code_simp

section \<open>Cleaning\<close>

lemma map_of_append_new:
  "k \<notin> fst ` set d \<Longrightarrow> map_of (d @ [(k, v)]) x = (if x = k then Some v else map_of d x)"
  by (induction d) auto

lemma map_of_replace_other:
  "x \<noteq> k \<Longrightarrow> map_of (map (\<lambda>(k', v'). if k' = k then (k', v) else (k', v')) d) x = map_of d x"
proof (induction d)
  case Nil
  show ?case by simp
next
  case (Cons a d)
  obtain k' v' where a: "a = (k', v')" by (cases a)
  show ?case unfolding a using Cons by simp
qed

lemma map_of_replace_same:
  "k \<in> fst ` set d \<Longrightarrow> map_of (map (\<lambda>(k', v'). if k' = k then (k', v) else (k', v')) d) k = Some v"
proof (induction d)
  case Nil
  then show ?case by simp
next
  case (Cons a d)
  obtain k' v' where a: "a = (k', v')" by (cases a)
  show ?case
  proof (cases "k' = k")
    case True
    then show ?thesis unfolding a by simp
  next
    case False
    with Cons.prems a have "k \<in> fst ` set d" by auto
    from Cons.IH [OF this] False show ?thesis unfolding a by simp
  qed
qed

lemma map_of_replace:
  "k \<in> fst ` set d \<Longrightarrow>
   map_of (map (\<lambda>(k', v'). if k' = k then (k', v) else (k', v')) d) x =
     (if x = k then Some v else map_of d x)"
  by (simp add: map_of_replace_other map_of_replace_same)

lemma map_of_dict_set: "map_of (dict_set k v d) x = (if x = k then Some v else map_of d x)"
  by (simp add: dict_set_def map_of_append_new map_of_replace del: map_of_append)

lemma lookup_dict_set: "lookup (dict_set c v r) c' = (if c' = c then v else lookup r c')"
  by (simp add: lookup_def map_of_dict_set)

lemma map2_of_map: "map2 g xs (map h xs) = map (\<lambda>x. g x (h x)) xs"
  by (induction xs) auto

lemma assign_Inr:
  assumes "assign df tgt src f = Inr out"
  shows "rows out = map (\<lambda>r. dict_set tgt (f (lookup r src)) r) (rows df)"
  using assms map2_of_map [where g = "\<lambda>r v. dict_set tgt v r" and h = "\<lambda>r. f (lookup r src)" and xs = "rows df"]
  by (auto simp: assign_def getitem_def setitem_def comp_def split: if_splits)

lemma assign_preserves:
  assumes "assign df tgt src f = Inr out" "tgt \<noteq> c" "\<forall>r \<in> set (rows df). Q (lookup r c)"
  shows "\<forall>r \<in> set (rows out). Q (lookup r c)"
  using assms(2,3) by (auto simp: assign_Inr [OF assms(1)] lookup_dict_set)

lemma dropna_Inr:
  assumes "dropna df c = Inr out"
  shows "rows out = filter (\<lambda>r. lookup r c \<noteq> NaN) (rows df)"
  using assms mask_of_map [where p = "\<lambda>r. lookup r c \<noteq> NaN" and xs = "rows df"]
  by (auto simp: dropna_def getitem_def mask_rows_def comp_def split: if_splits)

lemma setitem_rows_lookup:
  assumes "r' \<in> set (rows (setitem df c vs))"
  shows "lookup r' c \<in> set vs"
proof -
  from assms obtain r v where "(r, v) \<in> set (zip (rows df) vs)" "r' = dict_set c v r"
    by (auto simp: setitem_def)
  then show ?thesis by (auto simp: lookup_dict_set dest: set_zip_rightD)
qed

lemma parse1_cell_kind:
  "parse_relative_date1 to_dt s T = Inr c \<Longrightarrow> c = NaN \<or> (\<exists>t. c = Ts t)"
  using cell_kind_try_body1 [of to_dt s T c]
  by (auto simp: parse_relative_date1_def split: sum.splits py_error.splits)

lemma apply_parse1_kind: "apply_parse1 to_dt c = Inr v \<Longrightarrow> v = NaN \<or> (\<exists>t. v = Ts t)"
  by (cases c) (auto simp: apply_parse1_def dest: parse1_cell_kind)

lemma apply_parse2_kind: "apply_parse2 to_dt now c = Inr v \<Longrightarrow> v = NaN \<or> (\<exists>t. v = Ts t)"
proof (cases c)
  case (Str s)
  assume a: "apply_parse2 to_dt now c = Inr v"
  obtain c' where "parse_relative_date2 to_dt s now = Inr c'" "c' = NaN \<or> (\<exists>t. c' = Ts t)"
    using parse_relative_date2_total [of to_dt s now] by blast
  with a Str show ?thesis by (simp add: apply_parse2_def)
qed (simp_all add: apply_parse2_def)

lemma traverse_kind:
  assumes "traverse f xs = Inr ys" "\<And>x y. f x = Inr y \<Longrightarrow> Q y"
  shows "\<forall>y \<in> set ys. Q y"
  using assms(1)
proof (induction xs arbitrary: ys)
  case Nil
  then show ?case by simp
next
  case (Cons x xs)
  then show ?case using assms(2) by (auto split: sum.splits)
qed

lemma posted_on_after_dropna:
  assumes "dropna (setitem df ''posted_on'' parsed) ''posted_on'' = Inr df1"
    and "\<forall>v \<in> set parsed. v = NaN \<or> (\<exists>t. v = Ts t)"
  shows "\<forall>r \<in> set (rows df1). \<exists>t. lookup r ''posted_on'' = Ts t"
proof
  fix r assume "r \<in> set (rows df1)"
  then have r: "r \<in> set (rows (setitem df ''posted_on'' parsed))" "lookup r ''posted_on'' \<noteq> NaN"
    by (simp_all add: dropna_Inr [OF assms(1)])
  from setitem_rows_lookup [OF r(1)] assms(2) r(2)
  show "\<exists>t. lookup r ''posted_on'' = Ts t" by auto
qed

lemma cleaning_steps_keep_posted_on:
  assumes "assign df1 ''job_postings'' ''job_postings'' str_strip = Inr df2"
    "assign df2 ''company'' ''company'' str_strip = Inr df3"
    "assign df3 ''place'' ''place'' str_strip = Inr df4"
    "assign df4 ''city'' ''place'' city_of = Inr df5"
    "\<forall>r \<in> set (rows df1). Q (lookup r ''posted_on'')"
  shows "\<forall>r \<in> set (rows df5). Q (lookup r ''posted_on'')"
proof -
  have 2: "\<forall>r \<in> set (rows df2). Q (lookup r ''posted_on'')"
    by (rule assign_preserves [OF assms(1) _ assms(5)]) simp
  have 3: "\<forall>r \<in> set (rows df3). Q (lookup r ''posted_on'')"
    by (rule assign_preserves [OF assms(2) _ 2]) simp
  have 4: "\<forall>r \<in> set (rows df4). Q (lookup r ''posted_on'')"
    by (rule assign_preserves [OF assms(3) _ 3]) simp
  show ?thesis
    by (rule assign_preserves [OF assms(4) _ 4]) simp
qed

lemma sort_values_desc_Inr:
  "sort_values_desc df c = Inr out \<Longrightarrow> set (rows out) = set (rows df)"
  by (auto simp: sort_values_desc_def split: sum.splits)

lemma clean1_posted_on:
  assumes "clean1 to_dt df = Inr out"
  shows "\<forall>r \<in> set (rows out). \<exists>t. lookup r ''posted_on'' = Ts t"
proof -
  from assms obtain col parsed df1 df2 df3 df4 where
    s: "traverse (apply_parse1 to_dt) col = Inr parsed"
       "dropna (setitem df ''posted_on'' parsed) ''posted_on'' = Inr df1"
       "assign df1 ''job_postings'' ''job_postings'' str_strip = Inr df2"
       "assign df2 ''company'' ''company'' str_strip = Inr df3"
       "assign df3 ''place'' ''place'' str_strip = Inr df4"
       "assign df4 ''city'' ''place'' city_of = Inr out"
    by (auto simp: clean1_def split: sum.splits)
  have "\<forall>v \<in> set parsed. v = NaN \<or> (\<exists>t. v = Ts t)"
    by (rule traverse_kind [OF s(1)]) (rule apply_parse1_kind)
  from posted_on_after_dropna [OF s(2) this]
  show ?thesis by (rule cleaning_steps_keep_posted_on [OF s(3-6)])
qed

lemma clean2_posted_on:
  assumes "clean2 to_dt now df = Inr out"
  shows "\<forall>r \<in> set (rows out). \<exists>t. lookup r ''posted_on'' = Ts t"
proof -
  from assms obtain col parsed df1 df2 df3 df4 df5 where
    s: "traverse (\<lambda>(i, c). apply_parse2 to_dt (now i) c) (enumerate 0 col) = Inr parsed"
       "dropna (setitem df ''posted_on'' parsed) ''posted_on'' = Inr df1"
       "assign df1 ''job_postings'' ''job_postings'' str_strip = Inr df2"
       "assign df2 ''company'' ''company'' str_strip = Inr df3"
       "assign df3 ''place'' ''place'' str_strip = Inr df4"
       "assign df4 ''city'' ''place'' city_of = Inr df5"
       "sort_values_desc df5 ''posted_on'' = Inr out"
    by (auto simp: clean2_def split: sum.splits)
  have "\<forall>v \<in> set parsed. v = NaN \<or> (\<exists>t. v = Ts t)"
    by (rule traverse_kind [OF s(1)]) (auto dest: apply_parse2_kind)
  from posted_on_after_dropna [OF s(2) this]
  have "\<forall>r \<in> set (rows df5). \<exists>t. lookup r ''posted_on'' = Ts t"
    by (rule cleaning_steps_keep_posted_on [OF s(3-6)])
  then show ?thesis by (simp add: sort_values_desc_Inr [OF s(7)])
qed

lemma split_on_first: "\<exists>ps. split_on sep s = takeWhile (\<lambda>c. c \<noteq> sep) s # ps"
proof (induction s)
  case Nil
  show ?case by simp
next
  case (Cons c cs)
  then obtain ps where "split_on sep cs = takeWhile (\<lambda>c. c \<noteq> sep) cs # ps" by blast
  then show ?case by simp
qed

lemma city_of_Str: "city_of (Str loc) = Str (strip (takeWhile (\<lambda>c. c \<noteq> CHR '','') loc))"
proof -
  obtain ps where "split_on CHR '','' loc = takeWhile (\<lambda>c. c \<noteq> CHR '','') loc # ps"
    using split_on_first by blast
  then show ?thesis by (simp add: city_of_def)
qed

lemma last_dropWhile: "dropWhile P xs \<noteq> [] \<Longrightarrow> last (dropWhile P xs) = last xs"
  by (metis last_appendR takeWhile_dropWhile_id)

lemma strip_first: "strip s \<noteq> [] \<Longrightarrow> \<not> is_space (hd (strip s))"
proof -
  assume a: "strip s \<noteq> []"
  let ?a = "dropWhile is_space s"
  let ?d = "dropWhile is_space (rev ?a)"
  from a have d: "?d \<noteq> []" by (simp add: strip_def)
  have ne: "?a \<noteq> []"
  proof
    assume "?a = []"
    then have "?d = []" by (simp only: rev.simps dropWhile.simps)
    with d show False by simp
  qed
  have "hd (strip s) = last ?d" using d by (simp add: strip_def hd_rev)
  also have "\<dots> = last (rev ?a)" using d by (rule last_dropWhile)
  also have "\<dots> = hd ?a" using ne by (simp add: last_rev)
  finally have "hd (strip s) = hd ?a" .
  moreover have "\<not> is_space (hd ?a)" using ne by (rule hd_dropWhile)
  ultimately show ?thesis by simp
qed

lemma dropWhile_self: "xs \<noteq> [] \<Longrightarrow> \<not> P (hd xs) \<Longrightarrow> dropWhile P xs = xs"
  by (cases xs) auto

lemma strip_fixed:
  assumes "s \<noteq> []" "\<not> is_space (hd s)" "\<not> is_space (last s)"
  shows "strip s = s"
proof -
  have 1: "dropWhile is_space s = s" using assms(1,2) by (rule dropWhile_self)
  have "dropWhile is_space (rev s) = rev s"
    using assms(1,3) by (intro dropWhile_self) (simp_all add: hd_rev)
  with 1 show ?thesis by (simp add: strip_def)
qed

lemma strip_strip: "strip (strip s) = strip s"
proof (cases "strip s = []")
  case True
  have "strip [] = []" by (simp add: strip_def)
  with True show ?thesis by simp
next
  case False
  then show ?thesis using strip_first [OF False] strip_last [OF False] by (intro strip_fixed)
qed

lemma city_after_steps:
  assumes "assign df3 ''place'' ''place'' str_strip = Inr df4"
    "assign df4 ''city'' ''place'' city_of = Inr df5"
  shows "\<forall>r \<in> set (rows df5). \<exists>raw. lookup r ''place'' = str_strip raw \<and>
           lookup r ''city'' = city_of (str_strip raw)"
  by (auto simp: assign_Inr [OF assms(1)] assign_Inr [OF assms(2)] lookup_dict_set)

lemma city_of_stripped:
  assumes "str_strip raw = Str loc"
  shows "city_of (str_strip raw) = Str (strip (takeWhile (\<lambda>c. c \<noteq> CHR '','') loc))"
    and "CHR '','' \<notin> set loc \<Longrightarrow> city_of (str_strip raw) = Str loc"
proof -
  show 1: "city_of (str_strip raw) = Str (strip (takeWhile (\<lambda>c. c \<noteq> CHR '','') loc))"
    using assms by (simp add: city_of_Str)
  assume "CHR '','' \<notin> set loc"
  then have tw: "takeWhile (\<lambda>c. c \<noteq> CHR '','') loc = loc" by (auto simp: takeWhile_eq_all_conv)
  from assms obtain s where "raw = Str s" and loc: "loc = strip s"
    by (cases raw) (auto simp: str_strip_def)
  have "strip loc = loc" unfolding loc by (rule strip_strip)
  with 1 show "city_of (str_strip raw) = Str loc" by (simp only: tw)
qed

lemma city_spec:
  assumes "\<forall>r \<in> set rs. \<exists>raw. lookup r ''place'' = str_strip raw \<and>
           lookup r ''city'' = city_of (str_strip raw)"
  shows "\<forall>r \<in> set rs. \<forall>loc. lookup r ''place'' = Str loc \<longrightarrow>
           lookup r ''city'' = Str (strip (takeWhile (\<lambda>c. c \<noteq> CHR '','') loc)) \<and>
           (CHR '','' \<notin> set loc \<longrightarrow> lookup r ''city'' = Str loc)"
proof (intro ballI allI impI)
  fix r loc assume r: "r \<in> set rs" and l: "lookup r ''place'' = Str loc"
  from assms r obtain raw where raw: "lookup r ''place'' = str_strip raw"
    "lookup r ''city'' = city_of (str_strip raw)" by blast
  with l have "str_strip raw = Str loc" by simp
  from city_of_stripped [OF this] raw(2)
  show "lookup r ''city'' = Str (strip (takeWhile (\<lambda>c. c \<noteq> CHR '','') loc)) \<and>
           (CHR '','' \<notin> set loc \<longrightarrow> lookup r ''city'' = Str loc)" by simp
qed

lemma clean1_city:
  assumes "clean1 to_dt df = Inr out"
  shows "\<forall>r \<in> set (rows out). \<exists>raw. lookup r ''place'' = str_strip raw \<and>
           lookup r ''city'' = city_of (str_strip raw)"
proof -
  from assms obtain df3 df4 where
    "assign df3 ''place'' ''place'' str_strip = Inr df4"
    "assign df4 ''city'' ''place'' city_of = Inr out"
    by (auto simp: clean1_def split: sum.splits)
  then show ?thesis by (rule city_after_steps)
qed

lemma clean2_city:
  assumes "clean2 to_dt now df = Inr out"
  shows "\<forall>r \<in> set (rows out). \<exists>raw. lookup r ''place'' = str_strip raw \<and>
           lookup r ''city'' = city_of (str_strip raw)"
proof -
  from assms obtain df3 df4 df5 where
    s: "assign df3 ''place'' ''place'' str_strip = Inr df4"
    "assign df4 ''city'' ''place'' city_of = Inr df5"
    "sort_values_desc df5 ''posted_on'' = Inr out"
    by (auto simp: clean2_def split: sum.splits)
  from city_after_steps [OF s(1,2)] show ?thesis
    by (simp add: sort_values_desc_Inr [OF s(3)])
qed

lemma location_city_eq: "(str_strip raw, city_of (str_strip raw)) = location_city raw"
  by (cases raw) (simp_all add: location_city_def str_strip_def city_of_Str, simp_all add: city_of_def)

lemma traverse_projr:
  "traverse f xs = Inr ys \<Longrightarrow> ys = map (\<lambda>x. projr (f x)) xs \<and> (\<forall>x \<in> set xs. f x = Inr (projr (f x)))"
  by (induction xs arbitrary: ys) (auto split: sum.splits)

lemma rows_after_parse:
  assumes "traverse f (map (\<lambda>r. lookup r c) (rows df)) = Inr parsed"
    and "dropna (setitem df c parsed) c = Inr df1"
  shows "rows df1 = map (\<lambda>r. dict_set c (projr (f (lookup r c))) r)
                      (filter (\<lambda>r. f (lookup r c) \<noteq> Inr NaN) (rows df))"
proof -
  let ?pv = "\<lambda>r. projr (f (lookup r c))"
  from assms(1) have t: "traverse (\<lambda>r. f (lookup r c)) (rows df) = Inr parsed"
    by (simp add: traverse_map)
  from traverse_projr [OF t] have p: "parsed = map ?pv (rows df)"
    and ok: "\<forall>r \<in> set (rows df). f (lookup r c) = Inr (?pv r)" by blast+
  have s: "rows (setitem df c parsed) = map (\<lambda>r. dict_set c (?pv r) r) (rows df)"
    unfolding p using map2_of_map [where g = "\<lambda>r v. dict_set c v r" and h = ?pv and xs = "rows df"]
    by (simp add: setitem_def)
  have "rows df1 = filter (\<lambda>r. lookup r c \<noteq> NaN) (map (\<lambda>r. dict_set c (?pv r) r) (rows df))"
    using dropna_Inr [OF assms(2)] s by simp
  also have "\<dots> = map (\<lambda>r. dict_set c (?pv r) r) (filter (\<lambda>r. ?pv r \<noteq> NaN) (rows df))"
    by (simp add: filter_map comp_def lookup_dict_set)
  also have "filter (\<lambda>r. ?pv r \<noteq> NaN) (rows df) = filter (\<lambda>r. f (lookup r c) \<noteq> Inr NaN) (rows df)"
  proof (rule filter_cong [OF refl])
    fix r assume "r \<in> set (rows df)"
    with ok have "f (lookup r c) = Inr (?pv r)" by blast
    then show "(?pv r \<noteq> NaN) = (f (lookup r c) \<noteq> Inr NaN)" by (metis sum.inject(2))
  qed
  finally show ?thesis .
qed

lemma place_city_after_steps:
  assumes "assign df1 ''job_postings'' ''job_postings'' str_strip = Inr df2"
    "assign df2 ''company'' ''company'' str_strip = Inr df3"
    "assign df3 ''place'' ''place'' str_strip = Inr df4"
    "assign df4 ''city'' ''place'' city_of = Inr df5"
  shows "map (\<lambda>r. (lookup r ''place'', lookup r ''city'')) (rows df5) =
         map (\<lambda>r. location_city (lookup r ''place'')) (rows df1)"
  by (simp add: assign_Inr [OF assms(1)] assign_Inr [OF assms(2)] assign_Inr [OF assms(3)]
      assign_Inr [OF assms(4)] comp_def lookup_dict_set location_city_eq)

lemma clean1_place_city:
  assumes "clean1 to_dt df = Inr out"
  shows "map (\<lambda>r. (lookup r ''place'', lookup r ''city'')) (rows out) =
         map (\<lambda>r. location_city (lookup r ''place''))
           (filter (\<lambda>r. apply_parse1 to_dt (lookup r ''posted_on'') \<noteq> Inr NaN) (rows df))"
proof -
  from assms obtain parsed df1 df2 df3 df4 where
    s: "traverse (apply_parse1 to_dt) (map (\<lambda>r. lookup r ''posted_on'') (rows df)) = Inr parsed"
       "dropna (setitem df ''posted_on'' parsed) ''posted_on'' = Inr df1"
       "assign df1 ''job_postings'' ''job_postings'' str_strip = Inr df2"
       "assign df2 ''company'' ''company'' str_strip = Inr df3"
       "assign df3 ''place'' ''place'' str_strip = Inr df4"
       "assign df4 ''city'' ''place'' city_of = Inr out"
    by (auto simp: clean1_def getitem_def split: sum.splits if_splits)
  show ?thesis
    unfolding place_city_after_steps [OF s(3-6)] rows_after_parse [OF s(1,2)]
    by (simp add: comp_def lookup_dict_set)
qed

lemma enumerate_map_snd: "enumerate n (map h xs) = map (\<lambda>(i, x). (i, h x)) (enumerate n xs)"
  by (induction xs arbitrary: n) auto

lemma map2_enumerate:
  "map2 k xs (map q (enumerate n xs)) = map (\<lambda>(i, x). k x (q (i, x))) (enumerate n xs)"
  by (induction xs arbitrary: n) auto

lemma rows_after_parse2:
  assumes "traverse (\<lambda>(i, v). f i v) (enumerate 0 (map (\<lambda>r. lookup r c) (rows df))) = Inr parsed"
    and "dropna (setitem df c parsed) c = Inr df1"
  shows "rows df1 = map (\<lambda>(i, r). dict_set c (projr (f i (lookup r c))) r)
                      (filter (\<lambda>(i, r). f i (lookup r c) \<noteq> Inr NaN) (enumerate 0 (rows df)))"
proof -
  let ?E = "enumerate 0 (rows df)"
  let ?F = "\<lambda>p. f (fst p) (lookup (snd p) c)"
  let ?pv = "\<lambda>p. projr (?F p)"
  from assms(1) have t: "traverse ?F ?E = Inr parsed"
    by (simp add: enumerate_map_snd traverse_map case_prod_beta)
  from traverse_projr [OF t] have p: "parsed = map ?pv ?E"
    and ok: "\<forall>x \<in> set ?E. ?F x = Inr (?pv x)" by blast+
  have s: "rows (setitem df c parsed) = map (\<lambda>p. dict_set c (?pv p) (snd p)) ?E"
    unfolding p using map2_enumerate [where k = "\<lambda>r v. dict_set c v r" and q = ?pv and xs = "rows df" and n = 0]
    by (simp add: setitem_def case_prod_beta)
  have "rows df1 = filter (\<lambda>r. lookup r c \<noteq> NaN) (map (\<lambda>p. dict_set c (?pv p) (snd p)) ?E)"
    using dropna_Inr [OF assms(2)] s by simp
  also have "\<dots> = map (\<lambda>p. dict_set c (?pv p) (snd p)) (filter (\<lambda>p. ?pv p \<noteq> NaN) ?E)"
    by (simp add: filter_map comp_def lookup_dict_set)
  also have "filter (\<lambda>p. ?pv p \<noteq> NaN) ?E = filter (\<lambda>p. ?F p \<noteq> Inr NaN) ?E"
  proof (rule filter_cong [OF refl])
    fix x assume "x \<in> set ?E"
    with ok have "?F x = Inr (?pv x)" by blast
    then show "(?pv x \<noteq> NaN) = (?F x \<noteq> Inr NaN)" by (metis sum.inject(2))
  qed
  finally show ?thesis by (simp only: case_prod_unfold)
qed

lemma getitem_Inr: "getitem df c = Inr col \<Longrightarrow> col = map (\<lambda>r. lookup r c) (rows df)"
  by (auto simp: getitem_def split: if_splits)

lemma clean2_steps:
  assumes "clean2 to_dt now df = Inr out"
  shows "\<exists>parsed df1 df2 df3 df4 df5.
       traverse (\<lambda>(i, c). apply_parse2 to_dt (now i) c)
          (enumerate 0 (map (\<lambda>r. lookup r ''posted_on'') (rows df))) = Inr parsed \<and>
       dropna (setitem df ''posted_on'' parsed) ''posted_on'' = Inr df1 \<and>
       assign df1 ''job_postings'' ''job_postings'' str_strip = Inr df2 \<and>
       assign df2 ''company'' ''company'' str_strip = Inr df3 \<and>
       assign df3 ''place'' ''place'' str_strip = Inr df4 \<and>
       assign df4 ''city'' ''place'' city_of = Inr df5 \<and>
       sort_values_desc df5 ''posted_on'' = Inr out"
proof -
  from assms obtain col parsed df1 df2 df3 df4 df5 where
    g: "getitem df ''posted_on'' = Inr col"
    and s: "traverse (\<lambda>(i, c). apply_parse2 to_dt (now i) c) (enumerate 0 col) = Inr parsed"
       "dropna (setitem df ''posted_on'' parsed) ''posted_on'' = Inr df1"
       "assign df1 ''job_postings'' ''job_postings'' str_strip = Inr df2"
       "assign df2 ''company'' ''company'' str_strip = Inr df3"
       "assign df3 ''place'' ''place'' str_strip = Inr df4"
       "assign df4 ''city'' ''place'' city_of = Inr df5"
       "sort_values_desc df5 ''posted_on'' = Inr out"
    by (auto simp: clean2_def split: sum.splits)
  from s(1) have "traverse (\<lambda>(i, c). apply_parse2 to_dt (now i) c)
          (enumerate 0 (map (\<lambda>r. lookup r ''posted_on'') (rows df))) = Inr parsed"
    unfolding getitem_Inr [OF g] .
  with s(2-7) show ?thesis by blast
qed

lemma clean2_place_city:
  assumes "clean2 to_dt now df = Inr out"
  shows "mset (map (\<lambda>r. (lookup r ''place'', lookup r ''city'')) (rows out)) =
         mset (map (\<lambda>(i, r). location_city (lookup r ''place''))
                (filter (\<lambda>(i, r). apply_parse2 to_dt (now i) (lookup r ''posted_on'') \<noteq> Inr NaN)
                   (enumerate 0 (rows df))))"
proof -
  let ?proj = "\<lambda>r. (lookup r ''place'', lookup r ''city'')"
  let ?E = "filter (\<lambda>(i, r). apply_parse2 to_dt (now i) (lookup r ''posted_on'') \<noteq> Inr NaN)
                   (enumerate 0 (rows df))"
  from clean2_steps [OF assms] obtain parsed df1 df2 df3 df4 df5 where
    s1: "traverse (\<lambda>(i, c). apply_parse2 to_dt (now i) c)
          (enumerate 0 (map (\<lambda>r. lookup r ''posted_on'') (rows df))) = Inr parsed"
    and s2: "dropna (setitem df ''posted_on'' parsed) ''posted_on'' = Inr df1"
    and s3: "assign df1 ''job_postings'' ''job_postings'' str_strip = Inr df2"
    and s4: "assign df2 ''company'' ''company'' str_strip = Inr df3"
    and s5: "assign df3 ''place'' ''place'' str_strip = Inr df4"
    and s6: "assign df4 ''city'' ''place'' city_of = Inr df5"
    and s7: "sort_values_desc df5 ''posted_on'' = Inr out"
    by blast
  have r1: "rows df1 = map (\<lambda>(i, r). dict_set ''posted_on''
                 (projr (apply_parse2 to_dt (now i) (lookup r ''posted_on''))) r) ?E"
    by (rule rows_after_parse2 [where f = "\<lambda>i. apply_parse2 to_dt (now i)", OF s1 s2])
  have m: "mset (rows out) = mset (rows df5)"
    using s7 by (auto simp: sort_values_desc_def split: sum.splits if_splits)
  have "mset (map ?proj (rows out)) = image_mset ?proj (mset (rows out))"
    by (simp only: mset_map)
  also have "\<dots> = image_mset ?proj (mset (rows df5))" by (simp only: m)
  also have "\<dots> = mset (map ?proj (rows df5))" by (simp only: mset_map)
  also have "map ?proj (rows df5) = map (\<lambda>r. location_city (lookup r ''place'')) (rows df1)"
    by (rule place_city_after_steps [OF s3 s4 s5 s6])
  also have "\<dots> = map (\<lambda>(i, r). location_city (lookup r ''place'')) ?E"
  proof -
    have l: "lookup (dict_set ''posted_on'' v r) ''place'' = lookup r ''place''" for v r
      by (simp add: lookup_dict_set)
    show ?thesis unfolding r1 map_map
      by (rule map_cong [OF refl]) (simp add: case_prod_beta l)
  qed
  finally show ?thesis .
qed

text \<open>
  C7. Every record of a cleaned table (of \<^verbatim>\<open>testdash.py\<close> and of \<^verbatim>\<open>testdash2.py\<close>)
  has a timestamp as \<^verbatim>\<open>posted_on\<close>, never the sentinel; so has every record of a
  selection \<^verbatim>\<open>df[mask]\<close> of the cleaned table, which is what the table view, the monthly
  trend and the aggregates read.
\<close>

theorem cleaned_records_have_timestamps:
  "(clean1 to_dt df = Inr out \<longrightarrow>
      (\<forall>keep. \<forall>r \<in> set (rows (mask_rows out keep)). \<exists>t. lookup r ''posted_on'' = Ts t) \<and>
      (\<forall>r \<in> set (rows out). \<exists>t. lookup r ''posted_on'' = Ts t)) \<and>
   (clean2 to_dt now df = Inr out \<longrightarrow>
      (\<forall>keep. \<forall>r \<in> set (rows (mask_rows out keep)). \<exists>t. lookup r ''posted_on'' = Ts t) \<and>
      (\<forall>r \<in> set (rows out). \<exists>t. lookup r ''posted_on'' = Ts t))"
  using clean1_posted_on [of to_dt df out] clean2_posted_on [of to_dt now df out]
    set_rows_mask_rows [of out]
  by blast

text \<open>
  C8. The records of a cleaned table are the records of the loaded table whose date was
  read, in their order for \<^verbatim>\<open>testdash.py\<close> and up to the final sorting for
  \<^verbatim>\<open>testdash2.py\<close>; each of them has the trimmed location as \<^verbatim>\<open>place\<close> and, as
  \<^verbatim>\<open>city\<close>, the location up to, not including, its first comma, without leading and
  trailing whitespace. So in every record of a cleaned table, \<^verbatim>\<open>city\<close> is the part of
  \<^verbatim>\<open>place\<close> before its first comma, trimmed; when the location has no comma,
  \<^verbatim>\<open>city\<close> is the whole (trimmed) location.
\<close>

theorem city_is_first_segment:
  "(clean1 to_dt df = Inr out \<longrightarrow>
      map (\<lambda>r. (lookup r ''place'', lookup r ''city'')) (rows out) =
      map (\<lambda>r. location_city (lookup r ''place''))
        (filter (\<lambda>r. apply_parse1 to_dt (lookup r ''posted_on'') \<noteq> Inr NaN) (rows df))) \<and>
   (clean2 to_dt now df = Inr out \<longrightarrow>
      mset (map (\<lambda>r. (lookup r ''place'', lookup r ''city'')) (rows out)) =
      mset (map (\<lambda>(i, r). location_city (lookup r ''place''))
        (filter (\<lambda>(i, r). apply_parse2 to_dt (now i) (lookup r ''posted_on'') \<noteq> Inr NaN)
           (enumerate 0 (rows df))))) \<and>
   (clean1 to_dt df = Inr out \<or> clean2 to_dt now df = Inr out \<longrightarrow>
      (\<forall>r \<in> set (rows out). \<forall>loc. lookup r ''place'' = Str loc \<longrightarrow>
         lookup r ''city'' = Str (strip (takeWhile (\<lambda>c. c \<noteq> CHR '','') loc)) \<and>
         (CHR '','' \<notin> set loc \<longrightarrow> lookup r ''city'' = Str loc)))"
proof (intro conjI impI)
  assume "clean1 to_dt df = Inr out"
  then show "map (\<lambda>r. (lookup r ''place'', lookup r ''city'')) (rows out) =
      map (\<lambda>r. location_city (lookup r ''place''))
        (filter (\<lambda>r. apply_parse1 to_dt (lookup r ''posted_on'') \<noteq> Inr NaN) (rows df))"
    by (rule clean1_place_city)
next
  assume "clean2 to_dt now df = Inr out"
  then show "mset (map (\<lambda>r. (lookup r ''place'', lookup r ''city'')) (rows out)) =
      mset (map (\<lambda>(i, r). location_city (lookup r ''place''))
        (filter (\<lambda>(i, r). apply_parse2 to_dt (now i) (lookup r ''posted_on'') \<noteq> Inr NaN)
           (enumerate 0 (rows df))))"
    by (rule clean2_place_city)
next
  assume "clean1 to_dt df = Inr out \<or> clean2 to_dt now df = Inr out"
  then have "\<forall>r \<in> set (rows out). \<exists>raw. lookup r ''place'' = str_strip raw \<and>
           lookup r ''city'' = city_of (str_strip raw)"
    using clean1_city [of to_dt df out] clean2_city [of to_dt now df out] by blast
  then show "\<forall>r \<in> set (rows out). \<forall>loc. lookup r ''place'' = Str loc \<longrightarrow>
         lookup r ''city'' = Str (strip (takeWhile (\<lambda>c. c \<noteq> CHR '','') loc)) \<and>
         (CHR '','' \<notin> set loc \<longrightarrow> lookup r ''city'' = Str loc)"
    by (rule city_spec)
qed

lemma example_load: "load1 example_sheet = Inr example_loaded" "load2 example_sheet = Inr example_loaded"
  by code_simp+

lemma example_clean1: "clean1 rejects_all example_loaded = Inr example_cleaned"
  by code_simp

lemma example_clean2: "clean2 rejects_all (\<lambda>i. default_reference) example_loaded = Inr example_cleaned"
  by code_simp

lemma example_kept1:
  "filter (\<lambda>r. apply_parse1 rejects_all (lookup r ''posted_on'') \<noteq> Inr NaN) (rows example_loaded) =
     [rows example_loaded ! 0, rows example_loaded ! 2]"
  by code_simp

lemma example_kept2:
  "map snd (filter (\<lambda>(i, r). apply_parse2 rejects_all default_reference (lookup r ''posted_on'') \<noteq> Inr NaN)
     (enumerate 0 (rows example_loaded))) =
     [rows example_loaded ! 0, rows example_loaded ! 2]"
  by code_simp

lemma example_places:
  "map (\<lambda>r. lookup r ''place'') (rows example_loaded) =
     [Str '' City1, State1 '', Str ''City2'', Str ''Remote'']"
  by code_simp

lemma example_place_city:
  "map (\<lambda>r. (lookup r ''place'', lookup r ''city'')) (rows example_cleaned) =
     [(Str ''City1, State1'', Str ''City1''), (Str ''Remote'', Str ''Remote'')]"
  by code_simp

lemma example_place_text:
  "list_all (\<lambda>r. \<exists>loc. lookup r ''place'' = Str loc) (rows example_cleaned)"
  by (simp add: example_cleaned_def lookup_def)

text \<open>
  The witness of C7: of the three postings of the example, the one dated
  \<^verbatim>\<open>yesterday-ish\<close> is dropped and the two others carry timestamps.
\<close>

theorem cleaned_records_have_timestamps_witness:
  "clean1 rejects_all example_loaded = Inr example_cleaned \<and>
   clean2 rejects_all (\<lambda>i. default_reference) example_loaded = Inr example_cleaned \<and>
   length (rows example_loaded) = 3 \<and> length (rows example_cleaned) = 2 \<and>
   list_all (\<lambda>r. \<exists>t. lookup r ''posted_on'' = Ts t) (rows example_cleaned)"
proof -
  have l: "length (rows example_loaded) = 3" "length (rows example_cleaned) = 2"
    by (simp_all add: example_loaded_def example_cleaned_def)
  show ?thesis
    using cleaned_records_have_timestamps
      [of rejects_all example_loaded example_cleaned "\<lambda>i. default_reference"]
      example_clean1 example_clean2 l
    by (simp add: list_all_iff)
qed

text \<open>
  The witness of C8: of the three postings of the example, located at
  \<^verbatim>\<open>" City1, State1 "\<close>, \<^verbatim>\<open>City2\<close> and \<^verbatim>\<open>Remote\<close>, both scripts keep the first
  and the third, with the cities \<^verbatim>\<open>City1\<close> and \<^verbatim>\<open>Remote\<close>.
\<close>

theorem city_is_first_segment_witness:
  "clean1 rejects_all example_loaded = Inr example_cleaned \<and>
   clean2 rejects_all (\<lambda>i. default_reference) example_loaded = Inr example_cleaned \<and>
   map (\<lambda>r. lookup r ''place'') (rows example_loaded) =
     [Str '' City1, State1 '', Str ''City2'', Str ''Remote''] \<and>
   filter (\<lambda>r. apply_parse1 rejects_all (lookup r ''posted_on'') \<noteq> Inr NaN) (rows example_loaded) =
     [rows example_loaded ! 0, rows example_loaded ! 2] \<and>
   map snd (filter (\<lambda>(i, r). apply_parse2 rejects_all default_reference (lookup r ''posted_on'') \<noteq> Inr NaN)
     (enumerate 0 (rows example_loaded))) = [rows example_loaded ! 0, rows example_loaded ! 2] \<and>
   map (\<lambda>r. (lookup r ''place'', lookup r ''city'')) (rows example_cleaned) =
     [(Str ''City1, State1'', Str ''City1''), (Str ''Remote'', Str ''Remote'')] \<and>
   map (\<lambda>r. (lookup r ''place'', lookup r ''city'')) (rows example_cleaned) =
     map (\<lambda>r. location_city (lookup r ''place''))
       (filter (\<lambda>r. apply_parse1 rejects_all (lookup r ''posted_on'') \<noteq> Inr NaN) (rows example_loaded)) \<and>
   mset (map (\<lambda>r. (lookup r ''place'', lookup r ''city'')) (rows example_cleaned)) =
     mset (map (\<lambda>(i, r). location_city (lookup r ''place''))
       (filter (\<lambda>(i, r). apply_parse2 rejects_all default_reference (lookup r ''posted_on'') \<noteq> Inr NaN)
          (enumerate 0 (rows example_loaded)))) \<and>
   list_all (\<lambda>r. \<exists>loc. lookup r ''place'' = Str loc \<and>
      lookup r ''city'' = Str (strip (takeWhile (\<lambda>c. c \<noteq> CHR '','') loc)))
     (rows example_cleaned)"
proof -
  note t = city_is_first_segment
      [of rejects_all example_loaded example_cleaned "\<lambda>i. default_reference"]
  have a: "map (\<lambda>r. (lookup r ''place'', lookup r ''city'')) (rows example_cleaned) =
     map (\<lambda>r. location_city (lookup r ''place''))
       (filter (\<lambda>r. apply_parse1 rejects_all (lookup r ''posted_on'') \<noteq> Inr NaN) (rows example_loaded))"
    using t example_clean1 by blast
  have b: "mset (map (\<lambda>r. (lookup r ''place'', lookup r ''city'')) (rows example_cleaned)) =
     mset (map (\<lambda>(i, r). location_city (lookup r ''place''))
       (filter (\<lambda>(i, r). apply_parse2 rejects_all default_reference (lookup r ''posted_on'') \<noteq> Inr NaN)
          (enumerate 0 (rows example_loaded))))"
    using t example_clean2 by blast
  have c: "list_all (\<lambda>r. \<exists>loc. lookup r ''place'' = Str loc \<and>
      lookup r ''city'' = Str (strip (takeWhile (\<lambda>c. c \<noteq> CHR '','') loc)))
     (rows example_cleaned)"
    using t example_clean1 example_place_text unfolding list_all_iff by blast
  from example_clean1 example_clean2 example_places example_kept1 example_kept2
    example_place_city a b c
  show ?thesis by (intro conjI)
qed

section \<open>Counting values\<close>

lemma unique_snoc: "unique (ys @ [y]) = (if y \<in> set ys then unique ys else unique ys @ [y])"
  by (simp add: unique_def)

lemma distinct_unique: "distinct (unique xs)"
  by (simp add: unique_def)

lemma length_unique: "length (unique xs) = card (set xs)"
  using distinct_card [OF distinct_unique, of xs] by simp

lemma unique_filter: "unique (filter P xs) = filter P (unique xs)"
  by (simp add: unique_def rev_filter remdups_filter)

lemma first_index_less: "x \<in> set ys \<Longrightarrow> first_index x ys < length ys"
  by (induction ys) (auto simp: first_index_def)

lemma first_index_snoc_old: "x \<in> set ys \<Longrightarrow> first_index x (ys @ [y]) = first_index x ys"
  by (simp add: first_index_def)

lemma first_index_snoc_new: "y \<notin> set ys \<Longrightarrow> first_index y (ys @ [y]) = length ys"
proof -
  assume "y \<notin> set ys"
  then have "\<And>x. x \<in> set ys \<Longrightarrow> x \<noteq> y" by auto
  then have "takeWhile (\<lambda>x. x \<noteq> y) (ys @ [y]) = ys @ takeWhile (\<lambda>x. x \<noteq> y) [y]"
    by (rule takeWhile_append2)
  then show ?thesis by (simp add: first_index_def)
qed

lemma unique_in_first_order:
  "sorted_wrt (\<lambda>a b. first_index a xs < first_index b xs) (unique xs)"
proof (induction xs rule: rev_induct)
  case Nil
  show ?case by (simp add: unique_def)
next
  case (snoc y ys)
  have old: "sorted_wrt (\<lambda>a b. first_index a (ys @ [y]) < first_index b (ys @ [y])) (unique ys)"
  proof (rule sorted_wrt_mono_rel [OF _ snoc])
    fix a b assume "a \<in> set (unique ys)" "b \<in> set (unique ys)"
      "first_index a ys < first_index b ys"
    then show "first_index a (ys @ [y]) < first_index b (ys @ [y])"
      by (simp add: first_index_snoc_old)
  qed
  show ?case
  proof (cases "y \<in> set ys")
    case True
    with old show ?thesis by (simp add: unique_snoc)
  next
    case False
    have "\<forall>a \<in> set (unique ys). first_index a (ys @ [y]) < first_index y (ys @ [y])"
      using False by (simp add: first_index_snoc_old first_index_snoc_new first_index_less)
    with old False show ?thesis by (simp add: unique_snoc sorted_wrt_append)
  qed
qed

lemma count_list_filter: "P v \<Longrightarrow> count_list (filter P xs) v = count_list xs v"
  by (induction xs) auto

lemma sorted_wrt_filter_pair:
  assumes "sorted_wrt R (filter P S)" "i < j" "j < length S" "P (S ! i)" "P (S ! j)"
  shows "R (S ! i) (S ! j)"
proof -
  let ?T = "take j S"
  have i: "i < length ?T" using assms(2,3) by simp
  have "S = ?T @ S ! j # drop (Suc j) S" using assms(3) by (rule id_take_nth_drop)
  moreover have "?T = take i ?T @ ?T ! i # drop (Suc i) ?T" using i by (rule id_take_nth_drop)
  moreover have "?T ! i = S ! i" using assms(2) by simp
  ultimately have "S = (take i ?T @ S ! i # drop (Suc i) ?T) @ S ! j # drop (Suc j) S"
    by simp
  then have "filter P S = (filter P (take i ?T) @ S ! i # filter P (drop (Suc i) ?T))
      @ S ! j # filter P (drop (Suc j) S)"
    using assms(4,5) by (metis filter.simps(2) filter_append)
  with assms(1) show ?thesis by (simp add: sorted_wrt_append)
qed

lemma value_counts_alt:
  "value_counts col =
     sort_key count_key (map (\<lambda>v. (v, count_list col v)) (filter (\<lambda>v. v \<noteq> NaN) (unique col)))"
proof -
  have k: "(\<lambda>(v, n). - int n) = count_key" by (auto simp: count_key_def)
  have eq: "map (\<lambda>v. (v, count_list (filter (\<lambda>v. v \<noteq> NaN) col) v)) (filter (\<lambda>v. v \<noteq> NaN) (unique col))
      = map (\<lambda>v. (v, count_list col v)) (filter (\<lambda>v. v \<noteq> NaN) (unique col))"
    by (rule map_cong) (simp_all add: count_list_filter)
  show ?thesis unfolding value_counts_def Let_def k unique_filter
    using eq by (rule arg_cong)
qed

lemma value_counts_set:
  "set (value_counts col) = (\<lambda>v. (v, count_list col v)) ` (set col - {NaN})"
  by (auto simp: value_counts_alt)

lemma value_counts_length: "length (value_counts col) = card (set col - {NaN})"
proof -
  have "length (value_counts col) = length (unique (filter (\<lambda>v. v \<noteq> NaN) col))"
    by (simp add: value_counts_alt unique_filter)
  also have "\<dots> = card (set (filter (\<lambda>v. v \<noteq> NaN) col))" by (rule length_unique)
  also have "set (filter (\<lambda>v. v \<noteq> NaN) col) = set col - {NaN}" by auto
  finally show ?thesis .
qed

lemma value_counts_distinct: "distinct (map fst (value_counts col))"
proof -
  let ?L = "map (\<lambda>v. (v, count_list col v)) (filter (\<lambda>v. v \<noteq> NaN) (unique col))"
  have "map fst ?L = filter (\<lambda>v. v \<noteq> NaN) (unique col)" by (simp add: comp_def)
  then have d: "distinct (map fst ?L)" by (simp add: distinct_unique)
  then have "distinct ?L \<and> inj_on fst (set ?L)" by (simp only: distinct_map)
  then have "distinct (sort_key count_key ?L) \<and> inj_on fst (set (sort_key count_key ?L))"
    by (simp only: distinct_sort set_sort)
  then show ?thesis unfolding value_counts_alt by (simp only: distinct_map)
qed

lemma value_counts_sorted: "sorted_wrt (\<lambda>a b. snd b \<le> snd a) (value_counts col)"
proof -
  have "sorted (map count_key (value_counts col))"
    unfolding value_counts_alt by (rule sorted_sort_key)
  then show ?thesis by (simp add: sorted_map count_key_def)
qed

lemma value_counts_ties:
  assumes "i < j" "j < length (value_counts col)"
    "snd (value_counts col ! i) = snd (value_counts col ! j)"
  shows "first_index (fst (value_counts col ! i)) col < first_index (fst (value_counts col ! j)) col"
proof -
  let ?L = "map (\<lambda>v. (v, count_list col v)) (filter (\<lambda>v. v \<noteq> NaN) (unique col))"
  let ?R = "\<lambda>a b. first_index (fst a) col < first_index (fst b) col"
  let ?S = "value_counts col"
  let ?k = "count_key (?S ! j)"
  have "sorted_wrt (\<lambda>a b. first_index a col < first_index b col) (filter (\<lambda>v. v \<noteq> NaN) (unique col))"
    using unique_in_first_order by (rule sorted_wrt_filter)
  then have "sorted_wrt ?R ?L" by (simp add: sorted_wrt_map)
  then have "sorted_wrt ?R (filter (\<lambda>y. count_key y = ?k) ?L)" by (rule sorted_wrt_filter)
  then have st: "sorted_wrt ?R (filter (\<lambda>y. count_key y = ?k) ?S)"
    unfolding value_counts_alt by (simp only: sort_key_stable)
  have ki: "count_key (?S ! i) = ?k" using assms(3) by (simp add: count_key_def)
  show ?thesis
    by (rule sorted_wrt_filter_pair [where P = "\<lambda>y. count_key y = ?k" and S = ?S and R = ?R,
          OF st assms(1,2) ki refl])
qed

lemma top5_Inr:
  "top5 df c = Inr res \<Longrightarrow> res = take 5 (value_counts (column_values df c))"
  by (auto simp: top5_def getitem_def column_values_def split: if_splits)

lemma value_counts_excluded:
  assumes v: "v \<in> set col" "v \<noteq> NaN" "v \<notin> fst ` set (take n (value_counts col))"
    and e: "e \<in> set (take n (value_counts col))"
  shows "count_list col v \<le> snd e \<and>
         (count_list col v = snd e \<longrightarrow> first_index (fst e) col < first_index v col)"
proof -
  let ?S = "value_counts col"
  from v(1,2) have "(v, count_list col v) \<in> set ?S" by (auto simp: value_counts_set)
  then obtain p where p: "p < length ?S" "?S ! p = (v, count_list col v)"
    by (auto simp: in_set_conv_nth)
  have np: "n \<le> p"
  proof (rule ccontr)
    assume "\<not> n \<le> p"
    with p(1) have "take n ?S ! p = ?S ! p" "p < length (take n ?S)" by simp_all
    then have "?S ! p \<in> set (take n ?S)" by (metis nth_mem)
    with p(2) v(3) show False by force
  qed
  from e obtain i where i: "i < length (take n ?S)" "take n ?S ! i = e"
    by (auto simp: in_set_conv_nth)
  then have ei: "e = ?S ! i" and ip: "i < p" using np by simp_all
  have "snd (?S ! p) \<le> snd (?S ! i)"
    using sorted_wrt_nth_less [OF value_counts_sorted ip p(1)] .
  moreover have "first_index (fst (?S ! i)) col < first_index (fst (?S ! p)) col"
    if "snd (?S ! i) = snd (?S ! p)"
    using value_counts_ties [OF ip p(1) that] .
  ultimately show ?thesis using p(2) ei by auto
qed

lemma top_rows_take_value_counts: "top_rows n col (take n (value_counts col))"
proof -
  let ?S = "value_counts col"
  let ?res = "take n ?S"
  have 1: "length ?res = min n (card (set col - {NaN}))"
    by (simp add: value_counts_length min.commute)
  have 2: "\<forall>e \<in> set ?res. fst e \<in> set col \<and> fst e \<noteq> NaN \<and> snd e = count_list col (fst e)"
  proof
    fix e assume "e \<in> set ?res"
    then have "e \<in> set ?S" by (rule in_set_takeD)
    then show "fst e \<in> set col \<and> fst e \<noteq> NaN \<and> snd e = count_list col (fst e)"
      by (auto simp: value_counts_set)
  qed
  have "distinct (take n (map fst ?S))" using value_counts_distinct by (rule distinct_take)
  then have 3: "distinct (map fst ?res)" by (simp add: take_map)
  have 4: "sorted_wrt (\<lambda>a b. snd b \<le> snd a) ?res"
    using value_counts_sorted by (rule sorted_wrt_take)
  have 5: "first_index (fst (?res ! i)) col < first_index (fst (?res ! j)) col"
    if "i < j \<and> j < length ?res \<and> snd (?res ! i) = snd (?res ! j)" for i j
  proof -
    from that have ij: "i < j" "j < length ?res" by blast+
    from that have eq: "snd (?res ! i) = snd (?res ! j)" by blast
    from ij have m: "?res ! i = ?S ! i" "?res ! j = ?S ! j" "j < length ?S" by simp_all
    from eq have "snd (?S ! i) = snd (?S ! j)" by (simp only: m)
    from value_counts_ties [OF ij(1) m(3) this] show ?thesis by (simp only: m)
  qed
  have 6: "\<forall>v \<in> set col - {NaN}. v \<notin> fst ` set ?res \<longrightarrow>
         (\<forall>e \<in> set ?res. count_list col v \<le> snd e \<and>
            (count_list col v = snd e \<longrightarrow> first_index (fst e) col < first_index v col))"
    using value_counts_excluded [of _ col n] by blast
  from 1 2 3 4 5 6 show ?thesis unfolding top_rows_def by blast
qed

lemma ranks_before_asym: "ranks_before col a b \<Longrightarrow> \<not> ranks_before col b a"
  by (auto simp: ranks_before_def)

lemma sorted_wrt_asym_unique:
  assumes "\<And>a b. R a b \<Longrightarrow> \<not> R b a" "sorted_wrt R xs" "sorted_wrt R ys" "set xs = set ys"
  shows "xs = ys"
  using assms(2-4)
proof (induction xs arbitrary: ys)
  case Nil
  then show ?case by simp
next
  case (Cons x xs)
  then obtain y ys' where ys: "ys = y # ys'" by (cases ys) auto
  from Cons.prems(1) have x: "\<forall>z \<in> set xs. R x z" "sorted_wrt R xs" by simp_all
  from Cons.prems(2) ys have y: "\<forall>z \<in> set ys'. R y z" "sorted_wrt R ys'" by simp_all
  have irr: "\<not> R a a" for a using assms(1) by blast
  have xy: "x = y"
  proof (rule ccontr)
    assume n: "x \<noteq> y"
    with Cons.prems(3) ys have "x \<in> set ys'" "y \<in> set xs" by auto
    with x(1) y(1) have "R y x" "R x y" by blast+
    with assms(1) show False by blast
  qed
  have "x \<notin> set xs" "y \<notin> set ys'" using x(1) y(1) irr by blast+
  with Cons.prems(3) ys xy have "set xs = set ys'" by auto
  from Cons.IH [OF x(2) y(2) this] xy ys show ?case by simp
qed

lemma top_rows_sorted:
  assumes "top_rows n col res"
  shows "sorted_wrt (ranks_before col) res"
proof -
  from assms have s: "sorted_wrt (\<lambda>a b. snd b \<le> snd a) res"
    and t: "\<And>i j. i < j \<Longrightarrow> j < length res \<Longrightarrow> snd (res ! i) = snd (res ! j) \<Longrightarrow>
         first_index (fst (res ! i)) col < first_index (fst (res ! j)) col"
    unfolding top_rows_def by blast+
  show ?thesis unfolding sorted_wrt_iff_nth_less
  proof (intro allI impI)
    fix i j assume ij: "i < j" "j < length res"
    from sorted_wrt_nth_less [OF s ij] have "snd (res ! j) \<le> snd (res ! i)" .
    with t [OF ij] show "ranks_before col (res ! i) (res ! j)"
      by (auto simp: ranks_before_def)
  qed
qed

lemma top_rows_outside:
  assumes r: "top_rows n col r" and r': "top_rows n col r'"
    and e: "e \<in> set r" "e \<notin> set r'" and x: "x \<in> set r'"
  shows "ranks_before col x e"
proof -
  from r e(1) have ev: "fst e \<in> set col" "fst e \<noteq> NaN" "snd e = count_list col (fst e)"
    unfolding top_rows_def by blast+
  have "fst e \<notin> fst ` set r'"
  proof
    assume "fst e \<in> fst ` set r'"
    then obtain e' where e': "e' \<in> set r'" "fst e' = fst e" by auto
    with r' have "snd e' = count_list col (fst e')" unfolding top_rows_def by blast
    with e' ev(3) have "e' = e" by (simp add: prod_eq_iff)
    with e'(1) e(2) show False by simp
  qed
  with r' ev(1,2) x have "count_list col (fst e) \<le> snd x \<and>
      (count_list col (fst e) = snd x \<longrightarrow> first_index (fst x) col < first_index (fst e) col)"
    unfolding top_rows_def by blast
  with ev(3) show ?thesis by (auto simp: ranks_before_def)
qed

lemma top_rows_subset:
  assumes r: "top_rows n col r" and r': "top_rows n col r'"
  shows "set r \<subseteq> set r'"
proof
  fix e assume e: "e \<in> set r"
  show "e \<in> set r'"
  proof (rule ccontr)
    assume ne: "e \<notin> set r'"
    from r r' have "distinct (map fst r)" "distinct (map fst r')" and l: "length r = length r'"
      unfolding top_rows_def by simp_all
    then have d: "distinct r" "distinct r'" by (simp_all add: distinct_map)
    with l have c: "card (set r) = card (set r')" by (simp add: distinct_card)
    have "\<not> set r' \<subseteq> set r"
    proof
      assume "set r' \<subseteq> set r"
      with c have "set r' = set r" by (simp add: card_subset_eq)
      with e ne show False by simp
    qed
    then obtain x where x: "x \<in> set r'" "x \<notin> set r" by blast
    from top_rows_outside [OF r r' e ne x(1)] top_rows_outside [OF r' r x(1) x(2) e]
    show False using ranks_before_asym by blast
  qed
qed

lemma top_rows_unique:
  assumes "top_rows n col r" "top_rows n col r'"
  shows "r = r'"
proof (rule sorted_wrt_asym_unique [where R = "ranks_before col"])
  show "ranks_before col a b \<Longrightarrow> \<not> ranks_before col b a" for a b by (rule ranks_before_asym)
  show "sorted_wrt (ranks_before col) r" using assms(1) by (rule top_rows_sorted)
  show "sorted_wrt (ranks_before col) r'" using assms(2) by (rule top_rows_sorted)
  show "set r = set r'" using top_rows_subset [OF assms] top_rows_subset [OF assms(2,1)] by blast
qed

text \<open>
  C9. For every table and every column \<open>c\<close> it has (\<^verbatim>\<open>company\<close>, \<^verbatim>\<open>place\<close>,
  \<^verbatim>\<open>city\<close>), \<^verbatim>\<open>df[c].value_counts().head(5)\<close> returns the top rows of the column:
  \<open>min 5 d\<close> entries, \<open>d\<close> the number of distinct values, each a value with its number
  of occurrences, counts descending, equal counts in the order of first occurrence, and
  no value left out ranks before an entry. These properties leave no choice: any list
  that has them is the list returned.
\<close>

theorem top5_by_count:
  assumes "c \<in> set (columns df)"
  shows "\<exists>res. top5 df c = Inr res \<and> top_rows 5 (column_values df c) res \<and>
               (\<forall>other. top_rows 5 (column_values df c) other \<longrightarrow> other = res)"
proof -
  let ?res = "take 5 (value_counts (column_values df c))"
  have "top5 df c = Inr ?res"
    using assms by (simp add: top5_def getitem_def column_values_def)
  moreover have t: "top_rows 5 (column_values df c) ?res"
    by (rule top_rows_take_value_counts)
  moreover have "\<forall>other. top_rows 5 (column_values df c) other \<longrightarrow> other = ?res"
    using top_rows_unique [OF _ t] by blast
  ultimately show ?thesis by blast
qed

text \<open>
  The witness of C9: seven companies, five entries, \<^verbatim>\<open>B\<close> (3 postings) and \<^verbatim>\<open>C\<close> (2)
  first; \<^verbatim>\<open>A\<close>, \<^verbatim>\<open>D\<close> and \<^verbatim>\<open>E\<close>, one posting each, stand in the order of their
  first postings, before \<^verbatim>\<open>F\<close> and \<^verbatim>\<open>G\<close>, which are cut.
\<close>

theorem top5_by_count_witness:
  "''company'' \<in> set (columns example_postings) \<and>
   card (set (column_values example_postings ''company'') - {NaN}) = 7 \<and>
   top5 example_postings ''company'' =
     Inr [(Str ''B'', 3), (Str ''C'', 2), (Str ''A'', 1), (Str ''D'', 1), (Str ''E'', 1)] \<and>
   top_rows 5 (column_values example_postings ''company'')
     [(Str ''B'', 3), (Str ''C'', 2), (Str ''A'', 1), (Str ''D'', 1), (Str ''E'', 1)]"
proof -
  have k: "''company'' \<in> set (columns example_postings)"
    by (simp add: example_postings_def)
  have e: "top5 example_postings ''company'' =
     Inr [(Str ''B'', 3), (Str ''C'', 2), (Str ''A'', 1), (Str ''D'', 1), (Str ''E'', 1)]"
    by code_simp
  have c: "card (set (column_values example_postings ''company'') - {NaN}) = 7"
    by code_simp
  from top5_by_count [OF k] e k c show ?thesis by auto
qed

end
